(* ===== verification/Prelude.thy ===== *)
theory Prelude
  imports Main "HOL-Library.Word"
begin

text \<open>
  Shared vocabulary of the RMDB model: the scalar types the C++ sources use
  (\<open>frame_id_t\<close>, \<open>page_id_t\<close>, \<open>txn_id_t\<close>, \<open>lsn_t\<close>), the sentinel constants of
  \<open>common/config.h\<close>, the identifiers \<open>PageId\<close> and \<open>Rid\<close>, the named collections
  that the component theories fill, and the generic list and map lemmas that their
  invariant proofs share.
\<close>

section \<open>Collections\<close>

named_theorems inv_simps "unfolding rules for the component invariants"
named_theorems list_helpers "generic list facts used by the component proofs"

section \<open>Scalar types and sentinels\<close>

type_synonym frame_id = nat
type_synonym txn_id = nat
type_synonym lsn = int
type_synonym page_no = int
type_synonym file_fd = int

definition INVALID_PAGE_ID :: int where
  "INVALID_PAGE_ID = -1"

definition INVALID_LSN :: lsn where
  "INVALID_LSN = -1"

definition PAGE_SIZE :: nat where
  "PAGE_SIZE = 4096"

type_synonym page_data = "8 word list"

text \<open>A zeroed frame buffer, as \<open>Page::reset_data\<close> leaves it.\<close>

definition zero_page :: page_data where
  "zero_page = replicate PAGE_SIZE 0"

section \<open>Identifiers\<close>

text \<open>\<open>struct PageId {int fd; page_id_t page_no;}\<close> of \<open>storage/page.h\<close>.\<close>

datatype PageId = PageId (pid_fd: file_fd) (pid_page_no: page_no)

text \<open>\<open>struct Rid {int page_no; int slot_no;}\<close> of \<open>defs.h\<close>, with its equality and
  its lexicographic \<open>operator<\<close>.\<close>

datatype Rid = Rid (rid_page_no: int) (rid_slot_no: int)

definition rid_less :: "Rid \<Rightarrow> Rid \<Rightarrow> bool" where
  "rid_less r1 r2 =
     (if rid_page_no r1 \<noteq> rid_page_no r2 then rid_page_no r1 < rid_page_no r2
      else rid_slot_no r1 < rid_slot_no r2)"

section \<open>Little-endian bytes\<close>

text \<open>The sources copy integers to and from byte buffers with \<open>memcpy\<close> and
  \<open>reinterpret_cast\<close> on a little-endian machine: the \<open>n\<close> bytes of \<open>x mod 2^(8n)\<close>,
  lowest first. Reading a signed 32-bit integer reinterprets the four bytes in two's
  complement; an unsigned field (\<open>uint32_t\<close>, \<open>size_t\<close>) is their value.\<close>

fun le_enc :: "nat \<Rightarrow> int \<Rightarrow> 8 word list" where
  "le_enc 0 x = []"
| "le_enc (Suc n) x = word_of_int x # le_enc n (x div 256)"

definition le_dec :: "8 word list \<Rightarrow> int" where
  "le_dec bs = foldr (\<lambda>b a. uint b + 256 * a) bs 0"

definition rd_i32 :: "8 word list \<Rightarrow> int option" where
  "rd_i32 bs = (if 4 \<le> length bs then Some (sint (word_of_int (le_dec (take 4 bs)) :: 32 word)) else None)"

definition rd_unsigned :: "nat \<Rightarrow> 8 word list \<Rightarrow> nat option" where
  "rd_unsigned n bs = (if n \<le> length bs then Some (nat (le_dec (take n bs))) else None)"

text \<open>A character of a \<open>std::string\<close> as the byte \<open>memcpy\<close> copies, and back.\<close>

definition byte_of_char :: "char \<Rightarrow> 8 word" where
  "byte_of_char c = word_of_nat (of_char c :: nat)"

definition char_of_byte :: "8 word \<Rightarrow> char" where
  "char_of_byte b = char_of (unat b)"

section \<open>Generic list lemmas\<close>

lemma distinct_butlast_last [list_helpers]:
  "distinct xs \<Longrightarrow> xs \<noteq> [] \<Longrightarrow> set (butlast xs) = set xs - {last xs}"
  by (induction xs rule: rev_induct) auto

lemma set_remove1_distinct [list_helpers]:
  "distinct xs \<Longrightarrow> set (remove1 x xs) = set xs - {x}"
  by simp

lemma distinct_remove1_keep [list_helpers]:
  "distinct xs \<Longrightarrow> distinct (remove1 x xs)"
  by simp

lemma all_nth_list_update [list_helpers]:
  "\<forall>i < length xs. P (xs ! i) \<Longrightarrow> P x \<Longrightarrow> \<forall>i < length (xs[j := x]). P (xs[j := x] ! i)"
proof (intro allI impI)
  fix i assume all: "\<forall>i < length xs. P (xs ! i)" and px: "P x" and i: "i < length (xs[j := x])"
  show "P (xs[j := x] ! i)" using all px i by (cases "i = j") simp_all
qed

lemma rid_less_irrefl: "\<not> rid_less r r"
  by (simp add: rid_less_def)

lemma rid_less_trans: "rid_less a b \<Longrightarrow> rid_less b c \<Longrightarrow> rid_less a c"
  by (auto simp: rid_less_def split: if_splits)

lemma rid_less_total: "a \<noteq> b \<Longrightarrow> rid_less a b \<or> rid_less b a"
  by (cases a; cases b) (auto simp: rid_less_def)

section \<open>Byte lemmas\<close>

lemma length_le_enc [simp]: "length (le_enc n x) = n"
  by (induction n arbitrary: x) simp_all

lemma le_dec_Cons [simp]: "le_dec (b # bs) = uint b + 256 * le_dec bs"
  by (simp add: le_dec_def)

lemma le_dec_Nil [simp]: "le_dec [] = 0"
  by (simp add: le_dec_def)

lemma le_dec_enc [simp]: "le_dec (le_enc n x) = x mod 2 ^ (8 * n)"
proof (induction n arbitrary: x)
  case 0
  then show ?case by simp
next
  case (Suc n)
  have "x mod (256 * 2 ^ (8 * n)) = 256 * (x div 256 mod 2 ^ (8 * n)) + x mod 256"
    by (rule zmod_zmult2_eq) simp
  then show ?case using Suc by (simp add: uint_word_of_int power_add mult.commute)
qed

lemma le_dec_nonneg: "0 \<le> le_dec bs"
  by (induction bs) simp_all

lemma signed32_mod:
  assumes "- (2 ^ 31) \<le> x" "x < (2 ^ 31 :: int)"
  shows "signed_take_bit 31 (x mod 2 ^ 32) = x"
proof -
  have "signed_take_bit 31 (x mod 2 ^ 32) = signed_take_bit 31 (take_bit 32 x)" by (simp only: take_bit_eq_mod)
  also have "\<dots> = signed_take_bit 31 x" by (simp add: signed_take_bit_take_bit)
  also have "\<dots> = x" using assms by (simp add: signed_take_bit_int_eq_self)
  finally show ?thesis .
qed

lemma rd_i32_enc [simp]:
  assumes "- (2 ^ 31) \<le> x" "x < 2 ^ 31"
  shows "rd_i32 (le_enc 4 x @ rest) = Some x"
proof -
  have "sint (word_of_int (x mod 2 ^ 32) :: 32 word) = x"
    using signed32_mod [OF assms] by (simp only: sint_sbintrunc') simp
  then show ?thesis by (simp add: rd_i32_def)
qed

lemma rd_unsigned_enc [simp]:
  "0 \<le> x \<Longrightarrow> x < 2 ^ (8 * n) \<Longrightarrow> rd_unsigned n (le_enc n x @ rest) = Some (nat x)"
  by (simp add: rd_unsigned_def)

lemma char_of_byte_of_char [simp]: "char_of_byte (byte_of_char c) = c"
proof -
  have "(of_char c :: nat) < 256" by (rule nat_of_char_less_256)
  then show ?thesis by (simp add: char_of_byte_def byte_of_char_def unat_of_nat)
qed

lemma char_of_byte_comp [simp]: "char_of_byte \<circ> byte_of_char = id"
  by (rule ext) simp

end
