(* ===== verification/LRU_Replacer.thy ===== *)
theory LRU_Replacer
  imports Prelude
begin

text \<open>
  The LRU replacer of \<open>replacer/lru_replacer.cpp\<close>. Its state is the list
  \<open>LRUlist_\<close> (front = most recently unpinned) and the hash \<open>LRUhash_\<close> from a
  frame to its list position, modelled as the set of frames it holds. The three
  operations \<open>victim\<close>, \<open>pin\<close> and \<open>unpin\<close> are translated one to one; the
  abstract specification is a FIFO queue of unpinned frames, and
  \<open>lru_abs\<close> shows the list implements it.
\<close>

record lru_replacer =
  lru_list :: "frame_id list"
  lru_hash :: "frame_id set"
  max_size :: nat

definition lru_new :: "nat \<Rightarrow> lru_replacer" where
  "lru_new num_pages = \<lparr>lru_list = [], lru_hash = {}, max_size = num_pages\<rparr>"

text \<open>\<open>LRUReplacer::victim\<close>: the back of the list is evicted.\<close>

definition victim :: "lru_replacer \<Rightarrow> frame_id option \<times> lru_replacer" where
  "victim r =
     (if lru_list r = [] then (None, r)
      else let f = last (lru_list r)
           in (Some f, r\<lparr>lru_list := butlast (lru_list r), lru_hash := lru_hash r - {f}\<rparr>))"

text \<open>\<open>LRUReplacer::pin\<close>: a frame known to the hash is erased from both.\<close>

definition pin :: "frame_id \<Rightarrow> lru_replacer \<Rightarrow> lru_replacer" where
  "pin f r =
     (if f \<in> lru_hash r then
        (if lru_list r = [] then r
         else r\<lparr>lru_list := remove1 f (lru_list r), lru_hash := lru_hash r - {f}\<rparr>)
      else r)"

text \<open>\<open>LRUReplacer::unpin\<close>: a frame not yet present goes to the front.\<close>

definition unpin :: "frame_id \<Rightarrow> lru_replacer \<Rightarrow> lru_replacer" where
  "unpin f r =
     (if f \<notin> lru_hash r then r\<lparr>lru_list := f # lru_list r, lru_hash := insert f (lru_hash r)\<rparr>
      else r)"

text \<open>The hash and the list agree, and no frame is listed twice.\<close>

definition lru_inv :: "lru_replacer \<Rightarrow> bool" where
  "lru_inv r \<longleftrightarrow> distinct (lru_list r) \<and> set (lru_list r) = lru_hash r"

text \<open>Abstract view: the queue of evictable frames, oldest first.\<close>

definition lru_abs :: "lru_replacer \<Rightarrow> frame_id list" where
  "lru_abs r = rev (lru_list r)"

fun queue_victim :: "frame_id list \<Rightarrow> frame_id option \<times> frame_id list" where
  "queue_victim [] = (None, [])"
| "queue_victim (f # q) = (Some f, q)"

definition queue_unpin :: "frame_id \<Rightarrow> frame_id list \<Rightarrow> frame_id list" where
  "queue_unpin f q = (if f \<in> set q then q else q @ [f])"

definition queue_pin :: "frame_id \<Rightarrow> frame_id list \<Rightarrow> frame_id list" where
  "queue_pin f q = remove1 f q"

text \<open>Evicting repeatedly, as the buffer pool does when it runs out of free frames.\<close>

fun victims :: "nat \<Rightarrow> lru_replacer \<Rightarrow> frame_id list" where
  "victims 0 r = []"
| "victims (Suc n) r =
     (case victim r of (None, _) \<Rightarrow> [] | (Some f, r') \<Rightarrow> f # victims n r')"

section \<open>Invariant\<close>

lemma lru_inv_new: "lru_inv (lru_new n)"
  by (simp add: lru_inv_def lru_new_def)

lemma victim_lru_inv: "lru_inv r \<Longrightarrow> lru_inv (snd (victim r))"
  by (auto simp: lru_inv_def victim_def Let_def distinct_butlast distinct_butlast_last)

lemma pin_lru_inv: "lru_inv r \<Longrightarrow> lru_inv (pin f r)"
  by (auto simp: lru_inv_def pin_def)

lemma unpin_lru_inv: "lru_inv r \<Longrightarrow> lru_inv (unpin f r)"
  by (auto simp: lru_inv_def unpin_def)

lemmas lru_inv_preserved = victim_lru_inv pin_lru_inv unpin_lru_inv

section \<open>Functional behaviour\<close>

lemma victim_None_iff: "fst (victim r) = None \<longleftrightarrow> lru_list r = []"
  by (simp add: victim_def Let_def)

lemma last_lru_in_hash: "lru_list r \<noteq> [] \<Longrightarrow> lru_inv r \<Longrightarrow> last (lru_list r) \<in> lru_hash r"
  unfolding lru_inv_def by (metis last_in_set)

lemma victim_nonempty:
  "lru_list r \<noteq> [] \<Longrightarrow> victim r =
     (Some (last (lru_list r)),
      r\<lparr>lru_list := butlast (lru_list r), lru_hash := lru_hash r - {last (lru_list r)}\<rparr>)"
  by (simp add: victim_def Let_def)

lemma victim_Some:
  assumes v: "fst (victim r) = Some f" and inv: "lru_inv r"
  shows "f \<in> lru_hash r \<and> lru_hash (snd (victim r)) = lru_hash r - {f}"
proof -
  have ne: "lru_list r \<noteq> []"
    using v by (cases "lru_list r = []") (simp_all add: victim_def)
  then have "f = last (lru_list r)" using v by (simp add: victim_nonempty)
  with ne inv show ?thesis by (simp add: victim_nonempty last_lru_in_hash)
qed

lemma pin_hash: "lru_inv r \<Longrightarrow> lru_hash (pin f r) = lru_hash r - {f}"
  by (auto simp: pin_def lru_inv_def)

lemma unpin_hash: "lru_hash (unpin f r) = insert f (lru_hash r)"
  by (auto simp: unpin_def)

lemma lru_ops_max_size:
  "max_size (snd (victim r)) = max_size r" "max_size (pin f r) = max_size r"
  "max_size (unpin f r) = max_size r"
  by (simp_all add: victim_def pin_def unpin_def Let_def)

section \<open>Refinement of the FIFO queue\<close>

lemma lru_abs_victim:
  "lru_abs (snd (victim r)) = snd (queue_victim (lru_abs r)) \<and>
   fst (victim r) = fst (queue_victim (lru_abs r))"
  by (cases "lru_list r" rule: rev_cases) (simp_all add: victim_def lru_abs_def)

lemma lru_abs_unpin:
  "lru_inv r \<Longrightarrow> lru_abs (unpin f r) = queue_unpin f (lru_abs r)"
  by (auto simp: unpin_def lru_abs_def queue_unpin_def lru_inv_def)

lemma remove1_rev_distinct: "distinct xs \<Longrightarrow> remove1 x (rev xs) = rev (remove1 x xs)"
  by (induction xs) (auto simp: remove1_append remove1_idem)

lemma lru_abs_pin:
  "lru_inv r \<Longrightarrow> lru_abs (pin f r) = queue_pin f (lru_abs r)"
  by (auto simp: pin_def lru_abs_def queue_pin_def lru_inv_def remove1_rev_distinct
      remove1_idem)

section \<open>Eviction order\<close>

lemma victims_fifo: "victims n r = take n (lru_abs r)"
proof (induction n arbitrary: r)
  case (Suc n)
  show ?case
  proof (cases "lru_list r" rule: rev_cases)
    case Nil
    then show ?thesis by (simp add: victim_def lru_abs_def)
  next
    case (snoc ys y)
    then show ?thesis using Suc[of "r\<lparr>lru_list := ys, lru_hash := lru_hash r - {y}\<rparr>"]
      by (simp add: victim_def lru_abs_def)
  qed
qed simp

lemma lru_abs_fold_unpin:
  "lru_inv r \<Longrightarrow> distinct fs \<Longrightarrow> set fs \<inter> lru_hash r = {} \<Longrightarrow>
     lru_abs (fold unpin fs r) = lru_abs r @ fs \<and> lru_inv (fold unpin fs r)"
proof (induction fs arbitrary: r)
  case (Cons f fs)
  have "lru_abs (unpin f r) = lru_abs r @ [f]" "lru_inv (unpin f r)" "lru_hash (unpin f r) = insert f (lru_hash r)"
    using Cons.prems by (simp_all add: unpin_def lru_abs_def lru_inv_def)
  then show ?case using Cons.IH[of "unpin f r"] Cons.prems by auto
qed simp

section \<open>Properties\<close>

text \<open>C5. The replacer implements a FIFO queue of evictable frames: \<open>unpin\<close> appends a
  frame not yet queued, \<open>pin\<close> removes it, \<open>victim\<close> returns and removes the oldest,
  and all three keep the list distinct and in agreement with the hash.\<close>

theorem lru_refines_queue:
  "lru_inv r \<Longrightarrow>
     lru_abs (unpin f r) = queue_unpin f (lru_abs r) \<and> lru_abs (pin f r) = queue_pin f (lru_abs r) \<and>
     victim r = (fst (queue_victim (lru_abs r)), snd (victim r)) \<and>
     lru_abs (snd (victim r)) = snd (queue_victim (lru_abs r)) \<and>
     lru_inv (unpin f r) \<and> lru_inv (pin f r) \<and> lru_inv (snd (victim r))"
  using lru_abs_victim[of r] by (simp add: lru_abs_unpin lru_abs_pin lru_inv_preserved prod_eq_iff)

theorem lru_refines_queue_witness:
  "lru_abs (unpin 5 (lru_new 3)) = [5]"
  using lru_refines_queue[of "lru_new 3" 5] lru_inv_new[of 3]
  by (simp add: lru_new_def lru_abs_def queue_unpin_def)

text \<open>C6. Frames unpinned into an empty replacer are evicted in the order they were
  unpinned: the least recently unpinned first.\<close>

theorem eviction_order_is_unpin_order:
  "distinct fs \<Longrightarrow> victims n (fold unpin fs (lru_new k)) = take n fs"
  using lru_abs_fold_unpin[of "lru_new k" fs] lru_inv_new[of k]
  by (simp add: victims_fifo lru_new_def lru_abs_def)

theorem eviction_order_is_unpin_order_witness:
  "victims 2 (fold unpin [3, 1, 2] (lru_new 4)) = [3, 1]"
  using eviction_order_is_unpin_order[of "[3, 1, 2]" 2 4] by simp

end
