(* ===== verification/Log_Manager.thy ===== *)
theory Log_Manager
  imports Prelude
begin

text \<open>
  The write-ahead log of \<open>recovery/log_manager.h\<close> and \<open>recovery/log_manager.cpp\<close>.
  A log record is its common header (type, lsn, total length, transaction id,
  prev-lsn) and a typed payload; the log buffer holds the records appended since the
  last flush and its byte offset; \<open>flush_log_to_disk\<close> appends the buffer to the
  log file and advances \<open>persist_lsn_\<close> to \<open>global_lsn_ - 1\<close>. The sizes of
  \<open>common/config.h\<close> and \<open>recovery/log_defs.h\<close>, which are not part of the
  sources, are taken from the specification (20-byte header).
\<close>

section \<open>Records\<close>

type_synonym rm_record = "8 word list"
type_synonym table_name = string

text \<open>\<open>enum LogType\<close>; \<open>begin\<close> and \<open>commit\<close> are Isar keywords and carry a prefix.\<close>

datatype LogType = UPDATE | INSERT | DELETE | LT_begin | LT_commit | ABORT | IX_INSERT | IX_DELETE

text \<open>The payloads of \<open>BeginLogRecord\<close> \<dots> \<open>UpdateLogRecord\<close>: the record image(s),
  the rid and the table name; an update carries the new value first.\<close>

datatype log_payload =
    BeginLog
  | CommitLog
  | AbortLog
  | InsertLog rm_record Rid table_name
  | DeleteLog rm_record Rid table_name
  | UpdateLog rm_record rm_record Rid table_name

record log_record =
  lr_lsn :: lsn
  lr_tid :: txn_id
  lr_prev_lsn :: lsn
  payload :: log_payload

definition LOG_HEADER_SIZE :: nat where
  "LOG_HEADER_SIZE = 20"

definition LOG_BUFFER_SIZE :: nat where
  "LOG_BUFFER_SIZE = 1024 * PAGE_SIZE"

primrec log_type :: "log_payload \<Rightarrow> LogType" where
  "log_type BeginLog = LT_begin"
| "log_type CommitLog = LT_commit"
| "log_type AbortLog = ABORT"
| "log_type (InsertLog _ _ _) = INSERT"
| "log_type (DeleteLog _ _ _) = DELETE"
| "log_type (UpdateLog _ _ _ _) = UPDATE"

text \<open>\<open>log_tot_len_\<close> as the constructors compute it: header, then
  \<open>sizeof(int)\<close> and the image, \<open>sizeof(Rid)\<close> = 8, \<open>sizeof(size_t)\<close> = 8 and the name.\<close>

primrec payload_len :: "log_payload \<Rightarrow> nat" where
  "payload_len BeginLog = 0"
| "payload_len CommitLog = 0"
| "payload_len AbortLog = 0"
| "payload_len (InsertLog v r t) = 4 + length v + 8 + 8 + length t"
| "payload_len (DeleteLog v r t) = 4 + length v + 8 + 8 + length t"
| "payload_len (UpdateLog new old r t) = 4 + length new + length old + 4 + 8 + 8 + length t"

definition log_tot_len :: "log_record \<Rightarrow> nat" where
  "log_tot_len r = LOG_HEADER_SIZE + payload_len (payload r)"

section \<open>The log manager\<close>

record log_manager =
  global_lsn :: lsn
  persist_lsn :: lsn
  buffer_recs :: "log_record list"
  buffer_offset :: nat
  log_file :: "log_record list"

text \<open>\<open>LogBuffer::is_full\<close>.\<close>

definition is_full :: "log_manager \<Rightarrow> nat \<Rightarrow> bool" where
  "is_full lm append_size \<longleftrightarrow> buffer_offset lm + append_size > LOG_BUFFER_SIZE"

text \<open>\<open>LogManager::flush_log_to_disk\<close>: write the buffer, advance \<open>persist_lsn_\<close>,
  reset the buffer.\<close>

definition flush_log_to_disk :: "log_manager \<Rightarrow> log_manager" where
  "flush_log_to_disk lm =
     lm\<lparr>log_file := log_file lm @ buffer_recs lm, persist_lsn := global_lsn lm - 1,
        buffer_recs := [], buffer_offset := 0\<rparr>"

text \<open>\<open>LogManager::add_log_to_buffer\<close>: flush first when the record would not fit.\<close>

definition add_log_to_buffer :: "log_record \<Rightarrow> log_manager \<Rightarrow> log_manager" where
  "add_log_to_buffer r lm =
     (let lm1 = (if is_full lm (log_tot_len r) then flush_log_to_disk lm else lm)
      in lm1\<lparr>buffer_recs := buffer_recs lm1 @ [r],
             buffer_offset := buffer_offset lm1 + log_tot_len r\<rparr>)"

text \<open>\<open>LogManager::get_new_lsn\<close>: \<open>global_lsn_++\<close>.\<close>

definition get_new_lsn :: "log_manager \<Rightarrow> lsn \<times> log_manager" where
  "get_new_lsn lm = (global_lsn lm, lm\<lparr>global_lsn := global_lsn lm + 1\<rparr>)"

text \<open>The common body of \<open>add_insert_log_record\<close> \<dots> \<open>add_abort_log_record\<close>: build the
  record (its \<open>prev_lsn_\<close> stays \<open>INVALID_LSN\<close>), give it the next lsn and append it.\<close>

definition add_log_record :: "txn_id \<Rightarrow> log_payload \<Rightarrow> log_manager \<Rightarrow> log_manager" where
  "add_log_record tid p lm =
     (let (l, lm1) = get_new_lsn lm
      in add_log_to_buffer \<lparr>lr_lsn = l, lr_tid = tid, lr_prev_lsn = INVALID_LSN, payload = p\<rparr> lm1)"

definition add_insert_log_record :: "txn_id \<Rightarrow> rm_record \<Rightarrow> Rid \<Rightarrow> table_name \<Rightarrow> log_manager \<Rightarrow> log_manager" where
  "add_insert_log_record tid v rid t = add_log_record tid (InsertLog v rid t)"

definition add_delete_log_record :: "txn_id \<Rightarrow> rm_record \<Rightarrow> Rid \<Rightarrow> table_name \<Rightarrow> log_manager \<Rightarrow> log_manager" where
  "add_delete_log_record tid v rid t = add_log_record tid (DeleteLog v rid t)"

definition add_update_log_record :: "txn_id \<Rightarrow> rm_record \<Rightarrow> rm_record \<Rightarrow> Rid \<Rightarrow> table_name \<Rightarrow> log_manager \<Rightarrow> log_manager" where
  "add_update_log_record tid new old rid t = add_log_record tid (UpdateLog new old rid t)"

definition add_begin_log_record :: "txn_id \<Rightarrow> log_manager \<Rightarrow> log_manager" where
  "add_begin_log_record tid = add_log_record tid BeginLog"

definition add_commit_log_record :: "txn_id \<Rightarrow> log_manager \<Rightarrow> log_manager" where
  "add_commit_log_record tid = add_log_record tid CommitLog"

definition add_abort_log_record :: "txn_id \<Rightarrow> log_manager \<Rightarrow> log_manager" where
  "add_abort_log_record tid = add_log_record tid AbortLog"

text \<open>The whole log: what is on disk followed by what is buffered.\<close>

definition all_records :: "log_manager \<Rightarrow> log_record list" where
  "all_records lm = log_file lm @ buffer_recs lm"

section \<open>Invariant\<close>

text \<open>The offset counts the buffered bytes and stays within the buffer; the lsns of
  the log are \<open>0, 1, \<dots>, global_lsn - 1\<close> in order. \<open>persist_lsn_\<close> names the last
  record on disk, or, after a flush forced by a full buffer, the first buffered record:
  \<open>get_new_lsn\<close> has already advanced \<open>global_lsn_\<close> when \<open>add_log_to_buffer\<close>
  flushes.\<close>

definition log_inv :: "log_manager \<Rightarrow> bool" where
  "log_inv lm \<longleftrightarrow>
     buffer_offset lm = sum_list (map log_tot_len (buffer_recs lm)) \<and>
     buffer_offset lm \<le> LOG_BUFFER_SIZE \<and>
     map lr_lsn (all_records lm) = map int [0..<length (all_records lm)] \<and>
     global_lsn lm = int (length (all_records lm)) \<and>
     (persist_lsn lm = int (length (log_file lm)) - 1 \<or>
      persist_lsn lm = int (length (log_file lm)) \<and> buffer_recs lm \<noteq> [])"

definition log_init :: log_manager where
  "log_init = \<lparr>global_lsn = 0, persist_lsn = -1, buffer_recs = [], buffer_offset = 0, log_file = []\<rparr>"

text \<open>Concrete logs for the witnesses: one insert record whose image nearly fills the
  buffer.\<close>

definition demo_big_insert :: log_payload where
  "demo_big_insert = InsertLog (replicate 4194260 0) (Rid 0 0) ''''"

definition demo_full_log :: log_manager where
  "demo_full_log = add_log_record 1 demo_big_insert log_init"

text \<open>A run of the log manager: the operations its callers issue (an append through
  one of the \<open>add_*_log_record\<close> methods, or an explicit \<open>flush_log_to_disk\<close>),
  applied in order, and the payloads the appends of a run hand in.\<close>

datatype log_op = LogAppend txn_id log_payload | LogFlush

primrec log_step :: "log_op \<Rightarrow> log_manager \<Rightarrow> log_manager" where
  "log_step (LogAppend tid p) lm = add_log_record tid p lm"
| "log_step LogFlush lm = flush_log_to_disk lm"

definition log_run :: "log_op list \<Rightarrow> log_manager \<Rightarrow> log_manager" where
  "log_run ops lm = fold log_step ops lm"

primrec appended :: "log_op list \<Rightarrow> log_payload list" where
  "appended [] = []"
| "appended (op # ops) = (case op of LogAppend tid p \<Rightarrow> p # appended ops | LogFlush \<Rightarrow> appended ops)"

primrec op_fits :: "log_op \<Rightarrow> bool" where
  "op_fits (LogAppend tid p) \<longleftrightarrow> LOG_HEADER_SIZE + payload_len p \<le> LOG_BUFFER_SIZE"
| "op_fits LogFlush \<longleftrightarrow> True"

section \<open>Invariant preservation and durability\<close>

lemma all_records_flush [simp]: "all_records (flush_log_to_disk lm) = all_records lm"
  by (simp add: all_records_def flush_log_to_disk_def)

lemma flush_log_inv: "log_inv lm \<Longrightarrow> log_inv (flush_log_to_disk lm)"
  by (simp add: log_inv_def flush_log_to_disk_def all_records_def)

lemma log_inv_init: "log_inv log_init"
  by (simp add: log_inv_def log_init_def all_records_def)

lemma add_log_to_buffer_records:
  "all_records (add_log_to_buffer r lm) = all_records lm @ [r]"
  by (simp add: add_log_to_buffer_def Let_def all_records_def flush_log_to_disk_def)

lemma add_log_to_buffer_global [simp]:
  "global_lsn (add_log_to_buffer r lm) = global_lsn lm"
  by (simp add: add_log_to_buffer_def Let_def flush_log_to_disk_def)

lemma all_records_global_upd [simp]: "all_records (lm\<lparr>global_lsn := g\<rparr>) = all_records lm"
  by (simp add: all_records_def)

lemma add_log_record_records:
  "all_records (add_log_record tid p lm) =
     all_records lm @ [\<lparr>lr_lsn = global_lsn lm, lr_tid = tid, lr_prev_lsn = INVALID_LSN, payload = p\<rparr>]"
  by (simp add: add_log_record_def get_new_lsn_def add_log_to_buffer_records)

lemma add_log_record_global:
  "global_lsn (add_log_record tid p lm) = global_lsn lm + 1"
  by (simp add: add_log_record_def get_new_lsn_def)

lemma add_log_to_buffer_offset:
  assumes inv: "buffer_offset lm = sum_list (map log_tot_len (buffer_recs lm))"
    and ok: "buffer_offset lm \<le> LOG_BUFFER_SIZE" and fits: "log_tot_len r \<le> LOG_BUFFER_SIZE"
  shows "buffer_offset (add_log_to_buffer r lm) = sum_list (map log_tot_len (buffer_recs (add_log_to_buffer r lm))) \<and>
         buffer_offset (add_log_to_buffer r lm) \<le> LOG_BUFFER_SIZE"
  using inv ok fits
  by (auto simp: add_log_to_buffer_def Let_def is_full_def flush_log_to_disk_def)

lemma add_log_to_buffer_file:
  "log_file (add_log_to_buffer r lm) = (if is_full lm (log_tot_len r) then all_records lm else log_file lm)"
  by (simp add: add_log_to_buffer_def Let_def flush_log_to_disk_def all_records_def)

lemma add_log_to_buffer_persist:
  "persist_lsn (add_log_to_buffer r lm) =
     (if is_full lm (log_tot_len r) then global_lsn lm - 1 else persist_lsn lm)"
  by (simp add: add_log_to_buffer_def Let_def flush_log_to_disk_def)

lemma add_log_record_inv:
  assumes inv: "log_inv lm"
    and fits: "LOG_HEADER_SIZE + payload_len p \<le> LOG_BUFFER_SIZE"
  shows "log_inv (add_log_record tid p lm)"
proof -
  let ?r = "\<lparr>lr_lsn = global_lsn lm, lr_tid = tid, lr_prev_lsn = INVALID_LSN, payload = p\<rparr>"
  let ?lm1 = "lm\<lparr>global_lsn := global_lsn lm + 1\<rparr>"
  let ?lm2 = "add_log_to_buffer ?r ?lm1"
  have eq: "add_log_record tid p lm = ?lm2"
    by (simp add: add_log_record_def get_new_lsn_def)
  have off: "buffer_offset ?lm2 = sum_list (map log_tot_len (buffer_recs ?lm2)) \<and>
         buffer_offset ?lm2 \<le> LOG_BUFFER_SIZE"
    using inv fits by (intro add_log_to_buffer_offset) (simp_all add: log_inv_def log_tot_len_def)
  have recs: "all_records ?lm2 = all_records lm @ [?r]"
    by (simp add: add_log_to_buffer_records)
  have lsns: "map lr_lsn (all_records lm @ [?r]) = map int [0..<length (all_records lm @ [?r])]"
    using inv by (simp add: log_inv_def)
  have nonempty: "buffer_recs ?lm2 \<noteq> []"
    by (simp add: add_log_to_buffer_def Let_def flush_log_to_disk_def)
  have pers: "persist_lsn ?lm2 = int (length (log_file ?lm2)) - 1 \<or>
      persist_lsn ?lm2 = int (length (log_file ?lm2))"
    using inv unfolding log_inv_def
    by (auto simp: add_log_to_buffer_file add_log_to_buffer_persist all_records_def)
  show ?thesis
    unfolding eq log_inv_def using off recs lsns pers nonempty inv by (auto simp: log_inv_def)
qed


lemma lsn_of_file_below:
  assumes "log_inv lm" "r \<in> set (log_file lm)"
  shows "lr_lsn r < int (length (log_file lm))"
proof -
  from assms(2) obtain i where i: "i < length (log_file lm)" "log_file lm ! i = r"
    by (auto simp: in_set_conv_nth)
  have "map lr_lsn (all_records lm) ! i = int i"
    using assms(1) i(1) by (simp add: log_inv_def all_records_def nth_append)
  with i show ?thesis by (auto simp: all_records_def nth_append)
qed

lemma log_durable_below_persist:
  assumes inv: "log_inv lm" and r: "r \<in> set (all_records lm)" and lt: "lr_lsn r < persist_lsn lm"
  shows "r \<in> set (log_file lm)"
proof -
  from r obtain i where i: "i < length (all_records lm)" "all_records lm ! i = r"
    by (auto simp: in_set_conv_nth)
  from inv have m: "map lr_lsn (all_records lm) = map int [0..<length (all_records lm)]"
    by (simp add: log_inv_def)
  have "map lr_lsn (all_records lm) ! i = int i"
    using i(1) by (simp only: m) simp
  with i have "lr_lsn r = int i" by simp
  with lt inv have "i < length (log_file lm)"
    by (auto simp: log_inv_def)
  with i show ?thesis by (auto simp: all_records_def nth_append)
qed

lemma lsn_below_global:
  assumes "log_inv lm" "r \<in> set (all_records lm)"
  shows "lr_lsn r < global_lsn lm"
proof -
  from assms(2) obtain i where i: "i < length (all_records lm)" "all_records lm ! i = r"
    by (auto simp: in_set_conv_nth)
  from assms(1) have m: "map lr_lsn (all_records lm) = map int [0..<length (all_records lm)]"
    by (simp add: log_inv_def)
  have "map lr_lsn (all_records lm) ! i = int i"
    using i(1) by (simp only: m) simp
  with i have "lr_lsn r = int i" by simp
  with i assms(1) show ?thesis by (simp add: log_inv_def)
qed

lemma appended_snoc [simp]:
  "appended (ops @ [op]) = appended ops @ (case op of LogAppend tid p \<Rightarrow> [p] | LogFlush \<Rightarrow> [])"
  by (induction ops) (simp_all split: log_op.split)

lemma log_run_snoc [simp]: "log_run (ops @ [op]) lm = log_step op (log_run ops lm)"
  by (simp add: log_run_def)

lemma log_step_inv: "log_inv lm \<Longrightarrow> op_fits op \<Longrightarrow> log_inv (log_step op lm)"
  by (cases op) (simp_all add: add_log_record_inv flush_log_inv)

lemma log_step_payloads:
  "map payload (all_records (log_step op lm)) =
     map payload (all_records lm) @ (case op of LogAppend tid p \<Rightarrow> [p] | LogFlush \<Rightarrow> [])"
  by (cases op) (simp_all add: add_log_record_records)

lemma log_run_inv_payloads:
  "list_all op_fits ops \<Longrightarrow>
     log_inv (log_run ops log_init) \<and> map payload (all_records (log_run ops log_init)) = appended ops"
proof (induction ops rule: rev_induct)
  case Nil
  have "all_records log_init = []" by (simp add: log_init_def all_records_def)
  then show ?case by (simp add: log_run_def log_inv_init)
next
  case (snoc op ops)
  then show ?case by (simp add: log_step_inv log_step_payloads)
qed

lemma add_log_record_full:
  assumes "is_full lm (LOG_HEADER_SIZE + payload_len p)"
  shows "persist_lsn (add_log_record tid p lm) = global_lsn lm \<and>
         log_file (add_log_record tid p lm) = all_records lm"
  using assms by (simp add: add_log_record_def get_new_lsn_def add_log_to_buffer_persist
      add_log_to_buffer_file log_tot_len_def is_full_def)

lemma demo_full_log_inv: "log_inv demo_full_log"
  unfolding demo_full_log_def
  by (rule add_log_record_inv[OF log_inv_init])
    (simp add: demo_big_insert_def LOG_HEADER_SIZE_def LOG_BUFFER_SIZE_def PAGE_SIZE_def)

section \<open>Properties\<close>

text \<open>C7. Appending a record keeps the log well formed, appends exactly that record
  with the next LSN, and advances \<open>global_lsn_\<close> by one.\<close>

theorem add_log_record_appends:
  "log_inv lm \<Longrightarrow> LOG_HEADER_SIZE + payload_len p \<le> LOG_BUFFER_SIZE \<Longrightarrow>
     log_inv (add_log_record tid p lm) \<and>
     all_records (add_log_record tid p lm) =
       all_records lm @ [\<lparr>lr_lsn = global_lsn lm, lr_tid = tid, lr_prev_lsn = INVALID_LSN, payload = p\<rparr>] \<and>
     global_lsn (add_log_record tid p lm) = global_lsn lm + 1"
  by (simp add: add_log_record_inv add_log_record_records add_log_record_global)

theorem add_log_record_appends_witness:
  "all_records (add_begin_log_record 7 log_init) = [\<lparr>lr_lsn = 0, lr_tid = 7, lr_prev_lsn = INVALID_LSN, payload = BeginLog\<rparr>]"
  using add_log_record_appends[OF log_inv_init, of BeginLog 7]
  by (simp add: add_begin_log_record_def LOG_HEADER_SIZE_def LOG_BUFFER_SIZE_def PAGE_SIZE_def
      log_init_def all_records_def)

text \<open>C8. When appending a record finds the buffer full, the flush sets
  \<open>persist_lsn_\<close> to the LSN of the record being appended, which is not on disk:
  every record on disk has a smaller LSN. (\<open>get_new_lsn\<close> runs before
  \<open>add_log_to_buffer\<close>, and the flush computes \<open>global_lsn_ - 1\<close>.)\<close>

theorem persist_lsn_names_unwritten_record:
  "log_inv lm \<Longrightarrow> is_full lm (LOG_HEADER_SIZE + payload_len p) \<Longrightarrow>
     persist_lsn (add_log_record tid p lm) = global_lsn lm \<and>
     (\<forall>r \<in> set (log_file (add_log_record tid p lm)). lr_lsn r < persist_lsn (add_log_record tid p lm))"
  using add_log_record_full[of lm p tid] lsn_below_global[of lm] by simp

theorem persist_lsn_names_unwritten_record_witness:
  "persist_lsn (add_commit_log_record 1 demo_full_log) = 1 \<and>
   1 \<notin> lr_lsn ` set (log_file (add_commit_log_record 1 demo_full_log))"
proof -
  have full: "is_full demo_full_log (LOG_HEADER_SIZE + payload_len CommitLog)"
    by (simp add: demo_full_log_def add_log_record_def get_new_lsn_def add_log_to_buffer_def Let_def
        is_full_def log_init_def log_tot_len_def demo_big_insert_def LOG_HEADER_SIZE_def
        LOG_BUFFER_SIZE_def PAGE_SIZE_def)
  have g: "global_lsn demo_full_log = 1"
    by (simp add: demo_full_log_def add_log_record_global log_init_def)
  show ?thesis using persist_lsn_names_unwritten_record[OF demo_full_log_inv full, of 1] g
    by (force simp: add_commit_log_record_def)
qed

text \<open>C9. Durability of a run: after any sequence of appends (each record fitting the
  buffer) and flushes from the constructor's state, the log holds exactly the appended
  payloads in order, every record whose LSN is below \<open>persist_lsn_\<close> is on disk, and a
  final \<open>flush_log_to_disk\<close> puts every appended payload on disk, in order.\<close>

theorem log_run_durable:
  assumes fits: "list_all op_fits ops"
  shows "map payload (all_records (log_run ops log_init)) = appended ops \<and>
         (\<forall>r \<in> set (all_records (log_run ops log_init)).
            lr_lsn r < persist_lsn (log_run ops log_init) \<longrightarrow> r \<in> set (log_file (log_run ops log_init))) \<and>
         map payload (log_file (log_run (ops @ [LogFlush]) log_init)) = appended ops"
proof -
  have I: "log_inv (log_run ops log_init)" and P: "map payload (all_records (log_run ops log_init)) = appended ops"
    using log_run_inv_payloads[OF fits] by simp_all
  have "log_file (flush_log_to_disk (log_run ops log_init)) = all_records (log_run ops log_init)"
    by (simp add: flush_log_to_disk_def all_records_def)
  then show ?thesis using P log_durable_below_persist[OF I] by simp
qed

theorem log_run_durable_witness:
  "map payload (all_records (log_run [LogAppend 1 BeginLog, LogFlush, LogAppend 1 CommitLog] log_init)) =
     [BeginLog, CommitLog] \<and>
   map payload (log_file (log_run [LogAppend 1 BeginLog, LogFlush, LogAppend 1 CommitLog, LogFlush] log_init)) =
     [BeginLog, CommitLog]"
  using log_run_durable[of "[LogAppend 1 BeginLog, LogFlush, LogAppend 1 CommitLog]"]
  by (simp add: LOG_HEADER_SIZE_def LOG_BUFFER_SIZE_def PAGE_SIZE_def)

end
