(* ===== verification/Buffer_Pool.thy ===== *)
theory Buffer_Pool
  imports LRU_Replacer Log_Manager
begin

text \<open>
  The buffer pool of \<open>storage/buffer_pool_manager.cpp\<close>: a fixed array of frames
  (\<open>pages_\<close>), the page table from \<open>PageId\<close> to frame, the free list, the LRU
  replacer, and the disk and log managers it calls. Each public operation
  (\<open>fetch_page\<close>, \<open>unpin_page\<close>, \<open>flush_page\<close>, \<open>new_page\<close>, \<open>delete_page\<close>,
  \<open>flush_all_pages\<close>) and the two private helpers (\<open>find_victim_page\<close>,
  \<open>update_page\<close>) is one definition. The disk manager (not among the sources) is
  modelled from the specification: a store of page images and a per-file page
  counter. The ghost list \<open>page_writes\<close> records, for every page the pool writes,
  its page LSN and the log's \<open>persist_lsn_\<close> at that moment, so that the WAL rule
  is a statement about the state.
\<close>

section \<open>Disk manager (from the specification)\<close>

record disk_manager =
  disk_pages :: "PageId \<Rightarrow> page_data"
  fd2pageno :: "file_fd \<Rightarrow> int"

definition write_page :: "PageId \<Rightarrow> page_data \<Rightarrow> disk_manager \<Rightarrow> disk_manager" where
  "write_page pid d dm = dm\<lparr>disk_pages := (disk_pages dm)(pid := d)\<rparr>"

definition read_page :: "disk_manager \<Rightarrow> PageId \<Rightarrow> page_data" where
  "read_page dm pid = disk_pages dm pid"

definition allocate_page :: "file_fd \<Rightarrow> disk_manager \<Rightarrow> int \<times> disk_manager" where
  "allocate_page fd dm = (fd2pageno dm fd, dm\<lparr>fd2pageno := (fd2pageno dm)(fd := fd2pageno dm fd + 1)\<rparr>)"

definition deallocate_page :: "page_no \<Rightarrow> disk_manager \<Rightarrow> disk_manager" where
  "deallocate_page p dm = dm"

section \<open>Frames and the pool\<close>

text \<open>\<open>class Page\<close>: its id, its bytes and the header fields the pool manages.\<close>

record page =
  page_id :: PageId
  data :: page_data
  is_dirty :: bool
  pin_count :: nat
  page_lsn :: lsn

text \<open>\<open>Page::reset_page_id\<close> (from \<open>storage/page.h\<close>, not among the sources).\<close>

definition reset_page_id :: "PageId \<Rightarrow> PageId" where
  "reset_page_id pid = PageId (pid_fd pid) INVALID_PAGE_ID"

definition new_frame :: page where
  "new_frame = \<lparr>page_id = PageId (-1) INVALID_PAGE_ID, data = zero_page, is_dirty = False,
                pin_count = 0, page_lsn = INVALID_LSN\<rparr>"

record buffer_pool =
  pool_size :: nat
  pages :: "page list"
  page_table :: "PageId \<rightharpoonup> frame_id"
  free_list :: "frame_id list"
  replacer :: lru_replacer
  disk :: disk_manager
  log_mgr :: log_manager
  page_writes :: "(PageId \<times> lsn \<times> lsn) list"

text \<open>The constructor: every frame starts on the free list.\<close>

definition bp_init :: "nat \<Rightarrow> disk_manager \<Rightarrow> log_manager \<Rightarrow> buffer_pool" where
  "bp_init n dm lm =
     \<lparr>pool_size = n, pages = replicate n new_frame, page_table = Map.empty,
      free_list = [0..<n], replacer = lru_new n, disk = dm, log_mgr = lm, page_writes = []\<rparr>"

datatype bp_error = InvalidPageIdAssert

section \<open>Operations\<close>

text \<open>\<open>find_victim_page\<close>: the free list first, then the replacer.\<close>

definition find_victim_page :: "buffer_pool \<Rightarrow> frame_id option \<times> buffer_pool" where
  "find_victim_page s =
     (if free_list s \<noteq> [] then (Some (hd (free_list s)), s\<lparr>free_list := tl (free_list s)\<rparr>)
      else let (r, rep) = victim (replacer s) in (r, s\<lparr>replacer := rep\<rparr>))"

text \<open>Writing a frame back under the WAL rule: flush the log first when the page
  LSN is beyond \<open>persist_lsn_\<close> (the code of \<open>update_page\<close>, \<open>flush_page\<close> and
  \<open>flush_all_pages\<close>, with \<open>ENABLE_LSN\<close> set).\<close>

definition write_back :: "PageId \<Rightarrow> page \<Rightarrow> buffer_pool \<Rightarrow> buffer_pool" where
  "write_back pid p s =
     (let s1 = (if page_lsn p > persist_lsn (log_mgr s)
                then s\<lparr>log_mgr := flush_log_to_disk (log_mgr s)\<rparr> else s)
      in s1\<lparr>disk := write_page pid (data p) (disk s1),
             page_writes := page_writes s1 @ [(pid, page_lsn p, persist_lsn (log_mgr s1))]\<rparr>)"

text \<open>\<open>update_page\<close>: write a dirty victim back, install the new mapping, then erase
  the old one (in this order), and reset the frame's bytes and header.\<close>

definition update_page :: "frame_id \<Rightarrow> PageId \<Rightarrow> buffer_pool \<Rightarrow> buffer_pool" where
  "update_page f new_pid s =
     (let p = pages s ! f;
          s1 = (if is_dirty p then write_back (page_id p) p s else s)
      in s1\<lparr>page_table := ((page_table s1)(new_pid \<mapsto> f))(page_id p := None),
             pages := (pages s1)[f := p\<lparr>page_id := new_pid, data := zero_page, is_dirty := False,
                                       page_lsn := INVALID_LSN\<rparr>]\<rparr>)"

text \<open>\<open>fetch_page\<close>: a hit pins the frame; a miss takes a victim, installs the page and
  reads it from disk; \<open>None\<close> is the null pointer of a full pool. The assertion of
  \<open>update_page\<close> on an invalid page number is the error branch.\<close>

definition fetch_page :: "PageId \<Rightarrow> buffer_pool \<Rightarrow> bp_error + (frame_id option \<times> buffer_pool)" where
  "fetch_page pid s =
     (case page_table s pid of
        None \<Rightarrow>
          (case find_victim_page s of
             (None, s1) \<Rightarrow> Inr (None, s1)
           | (Some f, s1) \<Rightarrow>
               if pid_page_no pid = INVALID_PAGE_ID then Inl InvalidPageIdAssert
               else let s2 = update_page f pid s1; p = pages s2 ! f
                    in Inr (Some f, s2\<lparr>pages := (pages s2)[f := p\<lparr>data := read_page (disk s2) pid,
                                                                 pin_count := 1\<rparr>],
                                        replacer := pin f (replacer s2)\<rparr>))
      | Some f \<Rightarrow>
          Inr (Some f, s\<lparr>pages := (pages s)[f := (pages s ! f)\<lparr>pin_count := pin_count (pages s ! f) + 1\<rparr>],
                          replacer := pin f (replacer s)\<rparr>))"

text \<open>\<open>unpin_page\<close>: \<open>false\<close> for an absent or unpinned page; the frame re-enters the
  replacer when its pin count reaches zero; \<open>is_dirty\<close> is or-ed in.\<close>

definition unpin_page :: "PageId \<Rightarrow> bool \<Rightarrow> buffer_pool \<Rightarrow> bool \<times> buffer_pool" where
  "unpin_page pid dirty s =
     (case page_table s pid of
        None \<Rightarrow> (False, s)
      | Some f \<Rightarrow>
          let p = pages s ! f in
          if pin_count p = 0 then (False, s)
          else let p1 = p\<lparr>pin_count := pin_count p - 1\<rparr>;
                   rep = (if pin_count p1 = 0 then unpin f (replacer s) else replacer s);
                   p2 = (if dirty then p1\<lparr>is_dirty := True\<rparr> else p1)
               in (True, s\<lparr>pages := (pages s)[f := p2], replacer := rep\<rparr>))"

text \<open>\<open>flush_page\<close>: write the page whether dirty or not, then clear its dirty flag.\<close>

definition flush_page :: "PageId \<Rightarrow> buffer_pool \<Rightarrow> bool \<times> buffer_pool" where
  "flush_page pid s =
     (case page_table s pid of
        None \<Rightarrow> (False, s)
      | Some f \<Rightarrow>
          let p = pages s ! f; s1 = write_back pid p s
          in (True, s1\<lparr>pages := (pages s1)[f := p\<lparr>is_dirty := False\<rparr>]\<rparr>))"

text \<open>\<open>new_page\<close>: a victim frame, a fresh page number from the disk manager, the
  frame installed dirty and pinned once.\<close>

definition new_page :: "file_fd \<Rightarrow> buffer_pool \<Rightarrow> (PageId \<times> frame_id) option \<times> buffer_pool" where
  "new_page fd s =
     (case find_victim_page s of
        (None, s1) \<Rightarrow> (None, s1)
      | (Some f, s1) \<Rightarrow>
          let (pno, dm) = allocate_page fd (disk s1);
              pid = PageId fd pno;
              s2 = update_page f pid (s1\<lparr>disk := dm\<rparr>);
              p = pages s2 ! f
          in (Some (pid, f), s2\<lparr>pages := (pages s2)[f := p\<lparr>is_dirty := True, pin_count := 1\<rparr>],
                                replacer := pin f (replacer s2)\<rparr>))"

text \<open>\<open>delete_page\<close>: \<open>true\<close> for an absent page, \<open>false\<close> for a pinned one; otherwise
  the frame is reset, unmapped, taken out of the replacer and put on the free list.\<close>

definition delete_page :: "PageId \<Rightarrow> buffer_pool \<Rightarrow> bool \<times> buffer_pool" where
  "delete_page pid s =
     (case page_table s pid of
        None \<Rightarrow> (True, s)
      | Some f \<Rightarrow>
          let p = pages s ! f in
          if pin_count p > 0 then (False, s)
          else (True, s\<lparr>disk := deallocate_page (pid_page_no pid) (disk s),
                        pages := (pages s)[f := p\<lparr>page_lsn := INVALID_LSN, data := zero_page,
                                                  page_id := reset_page_id (page_id p), is_dirty := False\<rparr>],
                        page_table := (page_table s)(pid := None),
                        replacer := pin f (replacer s),
                        free_list := free_list s @ [f]\<rparr>))"

text \<open>\<open>flush_all_pages\<close>: the loop over the frame array.\<close>

fun flush_all_from :: "file_fd \<Rightarrow> frame_id list \<Rightarrow> buffer_pool \<Rightarrow> buffer_pool" where
  "flush_all_from fd [] s = s"
| "flush_all_from fd (i # is) s =
     (let p = pages s ! i in
      if pid_fd (page_id p) = fd \<and> pid_page_no (page_id p) \<noteq> INVALID_PAGE_ID
      then flush_all_from fd is
             (let s1 = write_back (page_id p) p s in s1\<lparr>pages := (pages s1)[i := p\<lparr>is_dirty := False\<rparr>]\<rparr>)
      else flush_all_from fd is s)"

definition flush_all_pages :: "file_fd \<Rightarrow> buffer_pool \<Rightarrow> buffer_pool" where
  "flush_all_pages fd s = flush_all_from fd [0..<pool_size s] s"

text \<open>\<open>BufferPoolManager::mark_dirty\<close>, and \<open>Page::set_page_lsn\<close> as the
  \<open>ENABLE_LSN\<close> build calls it after logging an update (\<open>rm_file_handle.cpp\<close>).\<close>

definition mark_dirty :: "frame_id \<Rightarrow> buffer_pool \<Rightarrow> buffer_pool" where
  "mark_dirty f s = s\<lparr>pages := (pages s)[f := (pages s ! f)\<lparr>is_dirty := True\<rparr>]\<rparr>"

definition set_page_lsn :: "frame_id \<Rightarrow> lsn \<Rightarrow> buffer_pool \<Rightarrow> buffer_pool" where
  "set_page_lsn f l s = s\<lparr>pages := (pages s)[f := (pages s ! f)\<lparr>page_lsn := l\<rparr>]\<rparr>"

section \<open>Invariant\<close>

text \<open>A frame is resident when the page table maps its page id back to it.\<close>

definition resident :: "buffer_pool \<Rightarrow> frame_id \<Rightarrow> bool" where
  "resident s f \<longleftrightarrow> page_table s (page_id (pages s ! f)) = Some f"

text \<open>The invariant, in six parts: the shapes of the containers (and the disk
  manager's page counters are not negative); free frames are
  unpinned and carry no page; the page table points at frames holding that page, of
  a valid and allocated page number; every frame is free or resident; the replacer
  holds exactly the resident unpinned frames.\<close>

definition bp_shape :: "buffer_pool \<Rightarrow> bool" where
  "bp_shape s \<longleftrightarrow> length (pages s) = pool_size s \<and> lru_inv (replacer s) \<and> distinct (free_list s) \<and>
     (\<forall>fd. 0 \<le> fd2pageno (disk s) fd)"

definition free_ok :: "buffer_pool \<Rightarrow> bool" where
  "free_ok s \<longleftrightarrow> (\<forall>f \<in> set (free_list s). f < pool_size s \<and> pin_count (pages s ! f) = 0 \<and>
        pid_page_no (page_id (pages s ! f)) = INVALID_PAGE_ID)"

definition table_ok :: "buffer_pool \<Rightarrow> bool" where
  "table_ok s \<longleftrightarrow> (\<forall>pid f. page_table s pid = Some f \<longrightarrow> f < pool_size s \<and> page_id (pages s ! f) = pid \<and>
        pid_page_no pid \<noteq> INVALID_PAGE_ID \<and> pid_page_no pid < fd2pageno (disk s) (pid_fd pid))"

definition cover_ok :: "buffer_pool \<Rightarrow> bool" where
  "cover_ok s \<longleftrightarrow> (\<forall>f < pool_size s. f \<in> set (free_list s) \<or> resident s f)"

definition hash_sound :: "buffer_pool \<Rightarrow> bool" where
  "hash_sound s \<longleftrightarrow>
     (\<forall>f \<in> lru_hash (replacer s). f < pool_size s \<and> resident s f \<and> pin_count (pages s ! f) = 0)"

definition hash_complete :: "buffer_pool \<Rightarrow> bool" where
  "hash_complete s \<longleftrightarrow>
     (\<forall>f < pool_size s. resident s f \<and> pin_count (pages s ! f) = 0 \<longrightarrow> f \<in> lru_hash (replacer s))"

definition bp_inv :: "buffer_pool \<Rightarrow> bool" where
  "bp_inv s \<longleftrightarrow> bp_shape s \<and> free_ok s \<and> table_ok s \<and> cover_ok s \<and> hash_sound s \<and> hash_complete s"

section \<open>Invariant preservation\<close>

lemma free_okD:
  "free_ok s \<Longrightarrow> f \<in> set (free_list s) \<Longrightarrow>
     f < pool_size s \<and> pin_count (pages s ! f) = 0 \<and> pid_page_no (page_id (pages s ! f)) = INVALID_PAGE_ID"
  by (simp add: free_ok_def)

lemma table_okD:
  "table_ok s \<Longrightarrow> page_table s pid = Some f \<Longrightarrow>
     f < pool_size s \<and> page_id (pages s ! f) = pid \<and> pid_page_no pid \<noteq> INVALID_PAGE_ID \<and>
     pid_page_no pid < fd2pageno (disk s) (pid_fd pid)"
  unfolding table_ok_def by blast

lemma hash_soundD:
  "hash_sound s \<Longrightarrow> f \<in> lru_hash (replacer s) \<Longrightarrow>
     f < pool_size s \<and> resident s f \<and> pin_count (pages s ! f) = 0"
  by (simp add: hash_sound_def)

lemma resident_pages_same_id:
  assumes "page_id x = page_id (pages s ! f)" "f < length (pages s)"
  shows "resident (s\<lparr>pages := (pages s)[f := x]\<rparr>) g = resident s g"
  using assms by (cases "g = f") (simp_all add: resident_def)

lemma free_not_resident:
  assumes "free_ok s" "table_ok s" "f \<in> set (free_list s)"
  shows "\<not> resident s f"
proof
  assume "resident s f"
  then have "page_table s (page_id (pages s ! f)) = Some f" by (simp add: resident_def)
  with assms(2) have "pid_page_no (page_id (pages s ! f)) \<noteq> INVALID_PAGE_ID"
    by (blast dest: table_okD)
  with assms(1,3) show False by (blast dest: free_okD)
qed

lemma resident_table: "table_ok s \<Longrightarrow> page_table s pid = Some f \<Longrightarrow> resident s f"
  using table_okD[of s pid f] by (simp add: resident_def)

text \<open>Changing one resident frame's header (not its page id) and the replacer.\<close>

lemma bp_inv_pin_update:
  assumes inv: "bp_inv s" and f: "f < pool_size s" and res_f: "resident s f"
    and id: "page_id x = page_id (pages s ! f)" and lru: "lru_inv rep"
    and hash: "lru_hash rep - {f} = lru_hash (replacer s) - {f}"
    and f_in: "f \<in> lru_hash rep \<longleftrightarrow> pin_count x = 0"
  shows "bp_inv (s\<lparr>pages := (pages s)[f := x], replacer := rep\<rparr>)"
proof -
  let ?s' = "s\<lparr>pages := (pages s)[f := x], replacer := rep\<rparr>"
  have len: "f < length (pages s)" using inv f by (simp add: bp_inv_def bp_shape_def)
  have res: "resident ?s' g = resident s g" for g
    using resident_pages_same_id[OF id len] by (simp add: resident_def)
  have idg: "page_id ((pages s)[f := x] ! g) = page_id (pages s ! g)" for g
    using id len by (cases "g = f") simp_all
  have ping: "g \<noteq> f \<Longrightarrow> pin_count ((pages s)[f := x] ! g) = pin_count (pages s ! g)" for g
    by simp
  have pinf: "pin_count ((pages s)[f := x] ! f) = pin_count x" using len by simp
  have free_ne: "g \<in> set (free_list s) \<Longrightarrow> g \<noteq> f" for g
    using inv res_f free_not_resident by (fastforce simp: bp_inv_def)
  have hash_g: "g \<noteq> f \<Longrightarrow> g \<in> lru_hash rep \<longleftrightarrow> g \<in> lru_hash (replacer s)" for g
    using hash by blast
  from inv lru have "bp_shape ?s'" by (simp add: bp_inv_def bp_shape_def)
  moreover have "free_ok ?s'"
    unfolding free_ok_def
  proof
    fix g assume g: "g \<in> set (free_list ?s')"
    with inv have "g < pool_size s \<and> pin_count (pages s ! g) = 0 \<and>
        pid_page_no (page_id (pages s ! g)) = INVALID_PAGE_ID"
      by (simp add: bp_inv_def free_okD)
    with g free_ne show "g < pool_size ?s' \<and> pin_count (pages ?s' ! g) = 0 \<and>
        pid_page_no (page_id (pages ?s' ! g)) = INVALID_PAGE_ID"
      by (simp add: idg ping)
  qed
  moreover from inv have "table_ok ?s'" by (simp add: bp_inv_def table_ok_def idg)
  moreover from inv have "cover_ok ?s'" by (simp add: bp_inv_def cover_ok_def res)
  moreover have "hash_sound ?s'"
    unfolding hash_sound_def
  proof
    fix g assume g: "g \<in> lru_hash (replacer ?s')"
    show "g < pool_size ?s' \<and> resident ?s' g \<and> pin_count (pages ?s' ! g) = 0"
    proof (cases "g = f")
      case True
      with g f_in f res_f show ?thesis by (simp add: res pinf)
    next
      case False
      with g hash_g have "g \<in> lru_hash (replacer s)" by simp
      with inv have "g < pool_size s \<and> resident s g \<and> pin_count (pages s ! g) = 0"
        by (simp add: bp_inv_def hash_soundD)
      with False show ?thesis by (simp add: res ping)
    qed
  qed
  moreover have "hash_complete ?s'"
    unfolding hash_complete_def
  proof (intro allI impI)
    fix g assume g: "g < pool_size ?s'" and rp: "resident ?s' g \<and> pin_count (pages ?s' ! g) = 0"
    show "g \<in> lru_hash (replacer ?s')"
    proof (cases "g = f")
      case True
      with rp f_in show ?thesis by (simp add: pinf)
    next
      case False
      with g rp inv have "g \<in> lru_hash (replacer s)"
        by (simp add: bp_inv_def hash_complete_def res ping)
      with False hash_g show ?thesis by simp
    qed
  qed
  ultimately show ?thesis by (simp add: bp_inv_def)
qed

lemma hash_iff_unpinned:
  "bp_inv s \<Longrightarrow> f < pool_size s \<Longrightarrow> resident s f \<Longrightarrow>
     f \<in> lru_hash (replacer s) \<longleftrightarrow> pin_count (pages s ! f) = 0"
  by (auto simp: bp_inv_def hash_complete_def dest: hash_soundD)

lemma unpin_page_inv:
  assumes inv: "bp_inv s"
  shows "bp_inv (snd (unpin_page pid dirty s))"
proof (cases "page_table s pid")
  case None
  then show ?thesis using inv by (simp add: unpin_page_def)
next
  case (Some f)
  have tf: "f < pool_size s" "resident s f" "page_id (pages s ! f) = pid"
    using inv Some by (auto simp: bp_inv_def resident_table dest: table_okD)
  show ?thesis
  proof (cases "pin_count (pages s ! f) = 0")
    case True
    with Some inv show ?thesis by (simp add: unpin_page_def)
  next
    case False
    let ?p = "pages s ! f"
    let ?p1 = "?p\<lparr>pin_count := pin_count ?p - 1\<rparr>"
    let ?p2 = "if dirty then ?p1\<lparr>is_dirty := True\<rparr> else ?p1"
    let ?rep = "if pin_count ?p1 = 0 then unpin f (replacer s) else replacer s"
    have eq: "snd (unpin_page pid dirty s) = s\<lparr>pages := (pages s)[f := ?p2], replacer := ?rep\<rparr>"
      using Some False by (simp add: unpin_page_def Let_def)
    have notin: "f \<notin> lru_hash (replacer s)"
      using hash_iff_unpinned[OF inv tf(1,2)] False by simp
    have lru: "lru_inv ?rep" using inv by (simp add: bp_inv_def bp_shape_def unpin_lru_inv)
    show ?thesis unfolding eq
      by (rule bp_inv_pin_update[OF inv tf(1,2)])
        (use notin lru in \<open>auto simp: unpin_hash\<close>)
  qed
qed

lemma bp_inv_header_update:
  assumes inv: "bp_inv s" and f: "f < pool_size s" and res_f: "resident s f"
    and id: "page_id x = page_id (pages s ! f)" and pin: "pin_count x = pin_count (pages s ! f)"
  shows "bp_inv (s\<lparr>pages := (pages s)[f := x]\<rparr>)"
proof -
  have "bp_inv (s\<lparr>pages := (pages s)[f := x], replacer := replacer s\<rparr>)"
    using inv f res_f id pin hash_iff_unpinned[OF inv f res_f]
    by (intro bp_inv_pin_update) (simp_all add: bp_inv_def bp_shape_def)
  then show ?thesis by simp
qed

lemma write_back_fields:
  "pages (write_back pid p s) = pages s" "page_table (write_back pid p s) = page_table s"
  "free_list (write_back pid p s) = free_list s" "replacer (write_back pid p s) = replacer s"
  "pool_size (write_back pid p s) = pool_size s"
  "fd2pageno (disk (write_back pid p s)) = fd2pageno (disk s)"
  by (simp_all add: write_back_def Let_def write_page_def)

lemma write_back_inv: "bp_inv (write_back pid p s) = bp_inv s"
  by (simp add: bp_inv_def bp_shape_def free_ok_def table_ok_def cover_ok_def hash_sound_def
      hash_complete_def resident_def write_back_fields)

lemma resident_write_back: "resident (write_back pid p s) f = resident s f"
  by (simp add: resident_def write_back_fields)

lemma table_facts:
  assumes "bp_inv s" "page_table s pid = Some f"
  shows "f < pool_size s" "resident s f" "page_id (pages s ! f) = pid"
  using assms by (auto simp: bp_inv_def resident_table dest: table_okD)

lemma flush_page_inv:
  assumes inv: "bp_inv s"
  shows "bp_inv (snd (flush_page pid s))"
proof (cases "page_table s pid")
  case None
  then show ?thesis using inv by (simp add: flush_page_def)
next
  case (Some f)
  note tf = table_facts[OF inv Some]
  let ?s1 = "write_back pid (pages s ! f) s"
  have eq: "snd (flush_page pid s) = ?s1\<lparr>pages := (pages ?s1)[f := (pages s ! f)\<lparr>is_dirty := False\<rparr>]\<rparr>"
    using Some by (simp add: flush_page_def Let_def)
  have inv1: "bp_inv ?s1" using inv by (simp add: write_back_inv)
  show ?thesis unfolding eq
    by (rule bp_inv_header_update[OF inv1]) (use tf in \<open>simp_all add: resident_write_back write_back_fields\<close>)
qed

lemma mark_dirty_inv:
  "bp_inv s \<Longrightarrow> page_table s pid = Some f \<Longrightarrow> bp_inv (mark_dirty f s)"
  unfolding mark_dirty_def by (rule bp_inv_header_update) (simp_all add: table_facts)

lemma set_page_lsn_inv:
  "bp_inv s \<Longrightarrow> page_table s pid = Some f \<Longrightarrow> bp_inv (set_page_lsn f l s)"
  unfolding set_page_lsn_def by (rule bp_inv_header_update) (simp_all add: table_facts)

lemma fetch_hit_inv:
  assumes inv: "bp_inv s" and Some: "page_table s pid = Some f"
  shows "fetch_page pid s =
           Inr (Some f, s\<lparr>pages := (pages s)[f := (pages s ! f)\<lparr>pin_count := pin_count (pages s ! f) + 1\<rparr>],
                          replacer := pin f (replacer s)\<rparr>) \<and>
         bp_inv (s\<lparr>pages := (pages s)[f := (pages s ! f)\<lparr>pin_count := pin_count (pages s ! f) + 1\<rparr>],
                          replacer := pin f (replacer s)\<rparr>)"
proof
  show "fetch_page pid s = Inr (Some f, s\<lparr>pages := (pages s)[f := (pages s ! f)\<lparr>pin_count := pin_count (pages s ! f) + 1\<rparr>],
                          replacer := pin f (replacer s)\<rparr>)"
    using Some by (simp add: fetch_page_def)
  note tf = table_facts[OF inv Some]
  have lru: "lru_inv (replacer s)" using inv by (simp add: bp_inv_def bp_shape_def)
  show "bp_inv (s\<lparr>pages := (pages s)[f := (pages s ! f)\<lparr>pin_count := pin_count (pages s ! f) + 1\<rparr>],
                          replacer := pin f (replacer s)\<rparr>)"
    by (rule bp_inv_pin_update[OF inv tf(1,2)]) (use lru in \<open>auto simp: pin_hash pin_lru_inv\<close>)
qed

lemma table_inj:
  "table_ok s \<Longrightarrow> page_table s p = Some f \<Longrightarrow> page_table s q = Some f \<Longrightarrow> p = q"
  using table_okD[of s p f] table_okD[of s q f] by simp

lemma delete_page_inv:
  assumes inv: "bp_inv s"
  shows "bp_inv (snd (delete_page pid s))"
proof (cases "page_table s pid")
  case None
  then show ?thesis using inv by (simp add: delete_page_def)
next
  case (Some f)
  note tf = table_facts[OF inv Some]
  show ?thesis
  proof (cases "pin_count (pages s ! f) > 0")
    case True
    with Some inv show ?thesis by (simp add: delete_page_def)
  next
    case False
    let ?p = "pages s ! f"
    let ?x = "?p\<lparr>page_lsn := INVALID_LSN, data := zero_page, page_id := reset_page_id (page_id ?p), is_dirty := False\<rparr>"
    let ?s' = "s\<lparr>disk := deallocate_page (pid_page_no pid) (disk s), pages := (pages s)[f := ?x],
                 page_table := (page_table s)(pid := None), replacer := pin f (replacer s),
                 free_list := free_list s @ [f]\<rparr>"
    have eq: "snd (delete_page pid s) = ?s'"
      using Some False by (simp add: delete_page_def Let_def)
    have tab: "table_ok s" and fr: "free_ok s" and sh: "bp_shape s"
      using inv by (simp_all add: bp_inv_def)
    have len: "f < length (pages s)" using sh tf by (simp add: bp_shape_def)
    have pin0: "pin_count ?p = 0" using False by simp
    have f_notfree: "f \<notin> set (free_list s)"
      using free_not_resident[OF fr tab] tf(2) by blast
    have invalid_x: "pid_page_no (page_id ?x) = INVALID_PAGE_ID"
      by (simp add: reset_page_id_def)
    have pages_g: "g \<noteq> f \<Longrightarrow> (pages s)[f := ?x] ! g = pages s ! g" for g by simp
    have not_pid: "resident s g \<Longrightarrow> g \<noteq> f \<Longrightarrow> page_id (pages s ! g) \<noteq> pid" for g
      using Some by (auto simp: resident_def)
    have res_keep: "resident s g \<Longrightarrow> g \<noteq> f \<Longrightarrow> resident ?s' g" for g
      using not_pid by (simp add: resident_def)
    have res_back: "resident ?s' g \<Longrightarrow> resident s g \<and> g \<noteq> f" for g
    proof -
      assume r: "resident ?s' g"
      show "resident s g \<and> g \<noteq> f"
      proof (cases "g = f")
        case True
        with r len have "page_table s (page_id ?x) = Some f"
          by (simp add: resident_def split: if_splits)
        with tab invalid_x show ?thesis by (auto dest: table_okD)
      next
        case False
        with r show ?thesis by (simp add: resident_def split: if_splits)
      qed
    qed
    have lru': "lru_inv (pin f (replacer s))" using sh by (simp add: bp_shape_def pin_lru_inv)
    have hash': "lru_hash (pin f (replacer s)) = lru_hash (replacer s) - {f}"
      using sh by (simp add: bp_shape_def pin_hash)
    have "bp_shape ?s'"
      using sh f_notfree lru' by (simp add: bp_shape_def deallocate_page_def)
    moreover have "free_ok ?s'"
      unfolding free_ok_def
    proof
      fix g assume g: "g \<in> set (free_list ?s')"
      show "g < pool_size ?s' \<and> pin_count (pages ?s' ! g) = 0 \<and>
          pid_page_no (page_id (pages ?s' ! g)) = INVALID_PAGE_ID"
      proof (cases "g = f")
        case True
        with tf len pin0 invalid_x show ?thesis by simp
      next
        case False
        with g fr have "g < pool_size s \<and> pin_count (pages s ! g) = 0 \<and>
            pid_page_no (page_id (pages s ! g)) = INVALID_PAGE_ID" by (simp add: free_okD)
        with False show ?thesis by simp
      qed
    qed
    moreover have "table_ok ?s'"
      unfolding table_ok_def
    proof (intro allI impI)
      fix q g assume q: "page_table ?s' q = Some g"
      then have qp: "q \<noteq> pid" and tq: "page_table s q = Some g" by (simp_all split: if_splits)
      have "g \<noteq> f" using table_inj[OF tab Some] tq qp by auto
      with tq tab show "g < pool_size ?s' \<and> page_id (pages ?s' ! g) = q \<and>
          pid_page_no q \<noteq> INVALID_PAGE_ID \<and> pid_page_no q < fd2pageno (disk ?s') (pid_fd q)"
        by (simp add: deallocate_page_def table_okD)
    qed
    moreover have "cover_ok ?s'"
      using inv res_keep by (auto simp: bp_inv_def cover_ok_def)
    moreover have "hash_sound ?s'"
      unfolding hash_sound_def
    proof
      fix g assume "g \<in> lru_hash (replacer ?s')"
      then have g: "g \<in> lru_hash (replacer s)" "g \<noteq> f" by (simp_all add: hash')
      with inv have "g < pool_size s \<and> resident s g \<and> pin_count (pages s ! g) = 0"
        by (simp add: bp_inv_def hash_soundD)
      with g res_keep show "g < pool_size ?s' \<and> resident ?s' g \<and> pin_count (pages ?s' ! g) = 0"
        by simp
    qed
    moreover have "hash_complete ?s'"
      unfolding hash_complete_def
    proof (intro allI impI)
      fix g assume g: "g < pool_size ?s'" and rp: "resident ?s' g \<and> pin_count (pages ?s' ! g) = 0"
      then have "resident s g" "g \<noteq> f" using res_back by auto
      with g rp inv have "g \<in> lru_hash (replacer s)"
        by (simp add: bp_inv_def hash_complete_def)
      with \<open>g \<noteq> f\<close> show "g \<in> lru_hash (replacer ?s')" by (simp add: hash')
    qed
    ultimately show ?thesis unfolding eq by (simp add: bp_inv_def)
  qed
qed

text \<open>A victim frame, taken off the free list or out of the replacer, is detached:
  the rest of the pool satisfies the invariant and the frame is in neither container.\<close>

definition detached :: "buffer_pool \<Rightarrow> frame_id \<Rightarrow> bool" where
  "detached s f \<longleftrightarrow> bp_shape s \<and> free_ok s \<and> table_ok s \<and> hash_sound s \<and>
     f < pool_size s \<and> f \<notin> set (free_list s) \<and> f \<notin> lru_hash (replacer s) \<and>
     (\<forall>g < pool_size s. g \<noteq> f \<longrightarrow> g \<in> set (free_list s) \<or> resident s g) \<and>
     (\<forall>g < pool_size s. g \<noteq> f \<longrightarrow> resident s g \<and> pin_count (pages s ! g) = 0 \<longrightarrow> g \<in> lru_hash (replacer s)) \<and>
     (page_table s (page_id (pages s ! f)) = Some f \<or> pid_page_no (page_id (pages s ! f)) = INVALID_PAGE_ID)"

lemma pin_absent: "f \<notin> lru_hash r \<Longrightarrow> pin f r = r"
  by (simp add: pin_def)

lemma update_page_fields:
  "pages (update_page f pid s) = (pages s)[f := (pages s ! f)\<lparr>page_id := pid, data := zero_page,
      is_dirty := False, page_lsn := INVALID_LSN\<rparr>]"
  "page_table (update_page f pid s) = ((page_table s)(pid \<mapsto> f))(page_id (pages s ! f) := None)"
  "free_list (update_page f pid s) = free_list s" "replacer (update_page f pid s) = replacer s"
  "pool_size (update_page f pid s) = pool_size s"
  "fd2pageno (disk (update_page f pid s)) = fd2pageno (disk s)"
  by (simp_all add: update_page_def Let_def write_back_fields)

lemma bp_inv_cong:
  assumes "pool_size t = pool_size s" "pages t = pages s" "page_table t = page_table s"
    "free_list t = free_list s" "replacer t = replacer s" "fd2pageno (disk t) = fd2pageno (disk s)"
  shows "bp_inv t = bp_inv s"
  using assms by (simp add: bp_inv_def bp_shape_def free_ok_def table_ok_def cover_ok_def
      hash_sound_def hash_complete_def resident_def)

lemma install_inv:
  assumes det: "detached s f" and new: "page_table s pid = None" "pid_page_no pid \<noteq> INVALID_PAGE_ID"
      "pid_page_no pid < fd2pageno (disk s) (pid_fd pid)"
    and x: "page_id x = pid" "0 < pin_count x"
  shows "bp_inv (s\<lparr>pages := (pages s)[f := x],
                   page_table := ((page_table s)(pid \<mapsto> f))(page_id (pages s ! f) := None)\<rparr>)"
    (is "bp_inv ?t")
proof -
  let ?old = "page_id (pages s ! f)"
  have sh: "bp_shape s" and fr: "free_ok s" and tab: "table_ok s" and hs: "hash_sound s"
    and f: "f < pool_size s" "f \<notin> set (free_list s)" "f \<notin> lru_hash (replacer s)"
    and cov: "\<And>g. g < pool_size s \<Longrightarrow> g \<noteq> f \<Longrightarrow> g \<in> set (free_list s) \<or> resident s g"
    and comp: "\<And>g. g < pool_size s \<Longrightarrow> g \<noteq> f \<Longrightarrow> resident s g \<Longrightarrow> pin_count (pages s ! g) = 0 \<Longrightarrow>
        g \<in> lru_hash (replacer s)"
    and old: "page_table s ?old = Some f \<or> pid_page_no ?old = INVALID_PAGE_ID"
    using det by (simp_all add: detached_def)
  have len: "f < length (pages s)" using sh f by (simp add: bp_shape_def)
  have old_pid: "?old \<noteq> pid" using old new by auto
  have pt_old: "page_table s ?old = Some g \<Longrightarrow> g = f" for g
    using old tab by (auto dest: table_okD)
  have pg: "g \<noteq> f \<Longrightarrow> (pages s)[f := x] ! g = pages s ! g" for g by simp
  have R: "g \<noteq> f \<Longrightarrow> resident ?t g \<longleftrightarrow> resident s g" for g
  proof -
    assume gf: "g \<noteq> f"
    let ?q = "page_id (pages s ! g)"
    have "resident ?t g \<longleftrightarrow> (((page_table s)(pid \<mapsto> f))(?old := None)) ?q = Some g"
      using gf by (simp add: resident_def)
    also have "\<dots> \<longleftrightarrow> page_table s ?q = Some g"
      using gf new(1) pt_old by (auto split: if_splits)
    finally show ?thesis by (simp add: resident_def)
  qed
  have Rf: "resident ?t f" using len x old_pid by (simp add: resident_def)
  have "bp_shape ?t" using sh by (simp add: bp_shape_def)
  moreover have "free_ok ?t"
    unfolding free_ok_def
  proof
    fix g assume g: "g \<in> set (free_list ?t)"
    then have "g \<noteq> f" using f by auto
    with g fr show "g < pool_size ?t \<and> pin_count (pages ?t ! g) = 0 \<and>
        pid_page_no (page_id (pages ?t ! g)) = INVALID_PAGE_ID" by (simp add: free_okD)
  qed
  moreover have "table_ok ?t"
    unfolding table_ok_def
  proof (intro allI impI)
    fix q g assume q: "page_table ?t q = Some g"
    show "g < pool_size ?t \<and> page_id (pages ?t ! g) = q \<and> pid_page_no q \<noteq> INVALID_PAGE_ID \<and>
        pid_page_no q < fd2pageno (disk ?t) (pid_fd q)"
    proof (cases "q = pid")
      case True
      with q old_pid have "g = f" by simp
      with True f len x new show ?thesis by simp
    next
      case False
      with q have qo: "q \<noteq> ?old" and tq: "page_table s q = Some g" by (simp_all split: if_splits)
      have "g \<noteq> f" using tq qo tab by (auto dest: table_okD)
      with tq tab show ?thesis by (simp add: table_okD)
    qed
  qed
  moreover have "cover_ok ?t"
    unfolding cover_ok_def
  proof (intro allI impI)
    fix g assume g: "g < pool_size ?t"
    show "g \<in> set (free_list ?t) \<or> resident ?t g"
    proof (cases "g = f")
      case True then show ?thesis using Rf by simp
    next
      case False then show ?thesis using cov[of g] g R by auto
    qed
  qed
  moreover have "hash_sound ?t"
    unfolding hash_sound_def
  proof
    fix g assume g: "g \<in> lru_hash (replacer ?t)"
    then have gf: "g \<noteq> f" using f by auto
    from g hs have "g < pool_size s \<and> resident s g \<and> pin_count (pages s ! g) = 0"
      by (simp add: hash_soundD)
    with gf R show "g < pool_size ?t \<and> resident ?t g \<and> pin_count (pages ?t ! g) = 0" by simp
  qed
  moreover have "hash_complete ?t"
    unfolding hash_complete_def
  proof (intro allI impI)
    fix g assume g: "g < pool_size ?t" and rp: "resident ?t g \<and> pin_count (pages ?t ! g) = 0"
    have gf: "g \<noteq> f" using rp x len by auto
    with rp R have "resident s g" "pin_count (pages s ! g) = 0" by simp_all
    with g gf comp show "g \<in> lru_hash (replacer ?t)" by simp
  qed
  ultimately show ?thesis by (simp add: bp_inv_def)
qed

lemma find_victim_fields:
  "pages (snd (find_victim_page s)) = pages s" "page_table (snd (find_victim_page s)) = page_table s"
  "disk (snd (find_victim_page s)) = disk s" "log_mgr (snd (find_victim_page s)) = log_mgr s"
  "pool_size (snd (find_victim_page s)) = pool_size s"
  by (simp_all add: find_victim_page_def split: prod.splits)

lemma find_victim_None:
  assumes "fst (find_victim_page s) = None"
  shows "snd (find_victim_page s) = s \<and> free_list s = [] \<and> lru_list (replacer s) = []"
proof -
  have fl: "free_list s = []" using assms by (auto simp: find_victim_page_def split: prod.splits if_splits)
  then have "fst (victim (replacer s)) = None" using assms
    by (simp add: find_victim_page_def split: prod.splits)
  then have "lru_list (replacer s) = []" by (simp add: victim_None_iff)
  with fl show ?thesis by (simp add: find_victim_page_def victim_def)
qed

lemma find_victim_detached:
  assumes inv: "bp_inv s" and v: "fst (find_victim_page s) = Some f"
  shows "detached (snd (find_victim_page s)) f"
proof (cases "free_list s = []")
  case False
  let ?s1 = "s\<lparr>free_list := tl (free_list s)\<rparr>"
  have eq: "find_victim_page s = (Some (hd (free_list s)), ?s1)"
    using False by (simp add: find_victim_page_def)
  with v have f: "f = hd (free_list s)" by simp
  have fl: "free_list s = f # tl (free_list s)" using False f by simp
  have sh: "bp_shape s" and fr: "free_ok s" and tab: "table_ok s" and hs: "hash_sound s"
    and cv: "cover_ok s" and hc: "hash_complete s"
    using inv by (simp_all add: bp_inv_def)
  have f_free: "f \<in> set (free_list s)" using fl by (metis list.set_intros(1))
  have nres: "\<not> resident s f" using free_not_resident[OF fr tab f_free] .
  have notl: "f \<notin> set (tl (free_list s))" using sh fl by (metis bp_shape_def distinct.simps(2))
  have nh: "f \<notin> lru_hash (replacer s)" using nres hs by (auto dest: hash_soundD)
  have ff: "f < pool_size s \<and> pid_page_no (page_id (pages s ! f)) = INVALID_PAGE_ID"
    using free_okD[OF fr f_free] by simp
  have "bp_shape ?s1" using sh by (simp add: bp_shape_def distinct_tl)
  moreover have "free_ok ?s1" using fr by (simp add: free_ok_def list.set_sel(2) False)
  moreover have "table_ok ?s1" using tab by (simp add: table_ok_def)
  moreover have "hash_sound ?s1" using hs by (simp add: hash_sound_def resident_def)
  moreover have "\<forall>g < pool_size ?s1. g \<noteq> f \<longrightarrow> g \<in> set (free_list ?s1) \<or> resident ?s1 g"
  proof (intro allI impI)
    fix g assume g: "g < pool_size ?s1" "g \<noteq> f"
    have fs: "set (free_list s) = insert f (set (tl (free_list s)))" using fl by (metis list.simps(15))
    from g cv have "g \<in> set (free_list s) \<or> resident s g" by (simp add: cover_ok_def)
    with g fs show "g \<in> set (free_list ?s1) \<or> resident ?s1 g" by (simp add: resident_def)
  qed
  moreover have "\<forall>g < pool_size ?s1. g \<noteq> f \<longrightarrow> resident ?s1 g \<and> pin_count (pages ?s1 ! g) = 0 \<longrightarrow>
      g \<in> lru_hash (replacer ?s1)"
    using hc by (simp add: hash_complete_def resident_def)
  ultimately show ?thesis using eq notl nh ff by (simp add: detached_def)
next
  case True
  obtain rep where vr: "victim (replacer s) = (Some f, rep)"
    using v True by (auto simp: find_victim_page_def split: prod.splits)
  let ?s1 = "s\<lparr>replacer := rep\<rparr>"
  have eq: "find_victim_page s = (Some f, ?s1)"
    using True vr by (simp add: find_victim_page_def)
  have sh: "bp_shape s" and fr: "free_ok s" and tab: "table_ok s" and hs: "hash_sound s"
    and cv: "cover_ok s" and hc: "hash_complete s"
    using inv by (simp_all add: bp_inv_def)
  have lru: "lru_inv (replacer s)" using sh by (simp add: bp_shape_def)
  have vs: "f \<in> lru_hash (replacer s) \<and> lru_hash rep = lru_hash (replacer s) - {f}"
    using victim_Some[of "replacer s" f] vr lru by simp
  have lru': "lru_inv rep" using victim_lru_inv[OF lru] vr by simp
  have fh: "f < pool_size s \<and> resident s f" using hs vs by (simp add: hash_soundD)
  have "bp_shape ?s1" using sh lru' by (simp add: bp_shape_def)
  moreover have "free_ok ?s1" using fr by (simp add: free_ok_def)
  moreover have "table_ok ?s1" using tab by (simp add: table_ok_def)
  moreover have "hash_sound ?s1" using hs vs by (auto simp: hash_sound_def resident_def)
  moreover have "\<forall>g < pool_size ?s1. g \<noteq> f \<longrightarrow> g \<in> set (free_list ?s1) \<or> resident ?s1 g"
    using cv by (simp add: cover_ok_def resident_def)
  moreover have "\<forall>g < pool_size ?s1. g \<noteq> f \<longrightarrow> resident ?s1 g \<and> pin_count (pages ?s1 ! g) = 0 \<longrightarrow>
      g \<in> lru_hash (replacer ?s1)"
    using hc vs by (simp add: hash_complete_def resident_def)
  ultimately show ?thesis using eq True vs fh by (simp add: detached_def resident_def)
qed

lemma detached_fields:
  "detached s f \<Longrightarrow> f \<notin> lru_hash (replacer s) \<and> f < length (pages s)"
  by (simp add: detached_def bp_shape_def)

lemma install_after_update:
  assumes det: "detached s f" and new: "page_table s pid = None" "pid_page_no pid \<noteq> INVALID_PAGE_ID"
      "pid_page_no pid < fd2pageno (disk s) (pid_fd pid)"
    and x: "page_id x = pid" "0 < pin_count x"
  shows "bp_inv ((update_page f pid s)\<lparr>pages := (pages (update_page f pid s))[f := x],
                                        replacer := pin f (replacer (update_page f pid s))\<rparr>)"
proof -
  have fl: "f \<notin> lru_hash (replacer s)" "f < length (pages s)" using detached_fields[OF det] by simp_all
  show ?thesis
    using install_inv[OF det new x] fl
    by (subst bp_inv_cong) (simp_all add: update_page_fields pin_absent)
qed

lemma fetch_page_inv:
  assumes inv: "bp_inv s" and alloc: "pid_page_no pid < fd2pageno (disk s) (pid_fd pid)"
    and ok: "fetch_page pid s = Inr (r, s')"
  shows "bp_inv s'"
proof (cases "page_table s pid")
  case (Some f)
  with fetch_hit_inv[OF inv Some] ok show ?thesis by simp
next
  case None
  show ?thesis
  proof (cases "fst (find_victim_page s)")
    case None': None
    with find_victim_None[OF None'] None ok inv show ?thesis
      by (simp add: fetch_page_def split: prod.splits)
  next
    case (Some f)
    obtain s1 where fv: "find_victim_page s = (Some f, s1)"
      using Some by (cases "find_victim_page s") simp
    have det: "detached s1 f" using find_victim_detached[OF inv Some] fv by simp
    have fields: "page_table s1 = page_table s" "disk s1 = disk s"
      using find_victim_fields[of s] fv by simp_all
    have valid: "pid_page_no pid \<noteq> INVALID_PAGE_ID"
      using ok None fv by (auto simp: fetch_page_def split: if_splits)
    let ?s2 = "update_page f pid s1"
    let ?x = "(pages ?s2 ! f)\<lparr>data := read_page (disk ?s2) pid, pin_count := 1\<rparr>"
    have s': "s' = ?s2\<lparr>pages := (pages ?s2)[f := ?x], replacer := pin f (replacer ?s2)\<rparr>"
      using ok None fv valid by (simp add: fetch_page_def Let_def)
    have len: "f < length (pages s1)" using detached_fields[OF det] by simp
    have idx: "page_id ?x = pid" using len by (simp add: update_page_fields)
    show ?thesis unfolding s'
      by (rule install_after_update[OF det]) (use None alloc valid idx fields in simp_all)
  qed
qed

lemma parts_disk_upd [simp]:
  "free_ok (s\<lparr>disk := dm\<rparr>) = free_ok s" "hash_sound (s\<lparr>disk := dm\<rparr>) = hash_sound s"
  "resident (s\<lparr>disk := dm\<rparr>) = resident s"
  by (simp_all add: free_ok_def hash_sound_def resident_def fun_eq_iff)

lemma detached_grow_counter:
  assumes det: "detached s f" and mono: "\<And>fd. fd2pageno (disk s) fd \<le> fd2pageno dm fd"
  shows "detached (s\<lparr>disk := dm\<rparr>) f"
proof -
  have sh: "bp_shape s" and tab: "table_ok s" using det by (simp_all add: detached_def)
  have "bp_shape (s\<lparr>disk := dm\<rparr>)"
    using sh mono by (auto simp: bp_shape_def intro: order_trans)
  moreover have "table_ok (s\<lparr>disk := dm\<rparr>)"
    unfolding table_ok_def
  proof (intro allI impI)
    fix q g assume q: "page_table (s\<lparr>disk := dm\<rparr>) q = Some g"
    with tab have "g < pool_size s \<and> page_id (pages s ! g) = q \<and> pid_page_no q \<noteq> INVALID_PAGE_ID \<and>
        pid_page_no q < fd2pageno (disk s) (pid_fd q)" by (simp add: table_okD)
    with mono[of "pid_fd q"] show "g < pool_size (s\<lparr>disk := dm\<rparr>) \<and> page_id (pages (s\<lparr>disk := dm\<rparr>) ! g) = q \<and>
        pid_page_no q \<noteq> INVALID_PAGE_ID \<and> pid_page_no q < fd2pageno (disk (s\<lparr>disk := dm\<rparr>)) (pid_fd q)"
      by simp
  qed
  ultimately show ?thesis using det unfolding detached_def by simp
qed

lemma new_page_inv:
  assumes inv: "bp_inv s"
  shows "bp_inv (snd (new_page fd s))"
proof (cases "fst (find_victim_page s)")
  case None
  obtain s1 where fv: "find_victim_page s = (None, s1)"
    using None by (cases "find_victim_page s") simp
  with find_victim_None[OF None] inv show ?thesis by (simp add: new_page_def)
next
  case (Some f)
  obtain s1 where fv: "find_victim_page s = (Some f, s1)"
    using Some by (cases "find_victim_page s") simp
  have det: "detached s1 f" using find_victim_detached[OF inv Some] fv by simp
  let ?pno = "fd2pageno (disk s1) fd"
  define dm where "dm = (disk s1)\<lparr>fd2pageno := (fd2pageno (disk s1))(fd := ?pno + 1)\<rparr>"
  let ?pid = "PageId fd ?pno"
  let ?s1' = "s1\<lparr>disk := dm\<rparr>"
  have alloc: "allocate_page fd (disk s1) = (?pno, dm)" by (simp add: allocate_page_def dm_def)
  have det': "detached ?s1' f"
    by (rule detached_grow_counter[OF det]) (simp add: dm_def)
  have sh: "bp_shape s1" and tab: "table_ok s1" using det by (simp_all add: detached_def)
  have pno0: "0 \<le> ?pno" using sh by (simp add: bp_shape_def)
  have absent: "page_table ?s1' ?pid = None"
  proof (rule ccontr)
    assume "page_table ?s1' ?pid \<noteq> None"
    then obtain g where g: "page_table s1 ?pid = Some g" by auto
    have "pid_page_no ?pid < fd2pageno (disk s1) (pid_fd ?pid)" using table_okD[OF tab g] by simp
    then show False by simp
  qed
  let ?s2 = "update_page f ?pid ?s1'"
  let ?x = "(pages ?s2 ! f)\<lparr>is_dirty := True, pin_count := 1\<rparr>"
  have eq: "snd (new_page fd s) = ?s2\<lparr>pages := (pages ?s2)[f := ?x], replacer := pin f (replacer ?s2)\<rparr>"
    using fv alloc by (simp add: new_page_def Let_def)
  have len: "f < length (pages s1)" using detached_fields[OF det] by simp
  show ?thesis unfolding eq
    by (rule install_after_update[OF det' absent])
      (use pno0 len in \<open>simp_all add: INVALID_PAGE_ID_def dm_def update_page_fields\<close>)
qed

lemma flush_all_from_inv:
  "bp_inv s \<Longrightarrow> \<forall>i \<in> set is. i < pool_size s \<Longrightarrow> bp_inv (flush_all_from fd is s)"
proof (induction "is" arbitrary: s)
  case Nil
  then show ?case by simp
next
  case (Cons i "is")
  let ?p = "pages s ! i"
  show ?case
  proof (cases "pid_fd (page_id ?p) = fd \<and> pid_page_no (page_id ?p) \<noteq> INVALID_PAGE_ID")
    case False
    with Cons show ?thesis by (auto simp: Let_def)
  next
    case True
    let ?s1 = "write_back (page_id ?p) ?p s"
    let ?s2 = "?s1\<lparr>pages := (pages ?s1)[i := ?p\<lparr>is_dirty := False\<rparr>]\<rparr>"
    have i: "i < pool_size s" using Cons.prems by simp
    have fr: "free_ok s" "table_ok s" "cover_ok s" using Cons.prems by (simp_all add: bp_inv_def)
    have "i \<notin> set (free_list s)" using True fr(1) by (auto dest: free_okD)
    then have res: "resident s i" using fr(3) i unfolding cover_ok_def by blast
    have inv1: "bp_inv ?s1" using Cons.prems by (simp add: write_back_inv)
    have "bp_inv ?s2"
      by (rule bp_inv_header_update[OF inv1]) (use i res in \<open>simp_all add: write_back_fields resident_write_back\<close>)
    moreover have "pool_size ?s2 = pool_size s" by (simp add: write_back_fields)
    ultimately have "bp_inv (flush_all_from fd is ?s2)" using Cons by simp
    with True show ?thesis by (simp add: Let_def)
  qed
qed

lemma flush_all_pages_inv: "bp_inv s \<Longrightarrow> bp_inv (flush_all_pages fd s)"
  by (simp add: flush_all_pages_def flush_all_from_inv)

end
