(* ===== verification/Buffer_Pool_WAL.thy ===== *)
theory Buffer_Pool_WAL
  imports Buffer_Pool
begin

text \<open>
  The write-ahead-log discipline of the buffer pool and its life cycle. \<open>wal_inv\<close>
  states that the log manager is well formed, that every frame's page LSN names a
  record the log manager has handed out, and that every page image the pool wrote
  to disk had its page LSN at or below \<open>persist_lsn_\<close> at that moment (the check
  of \<open>buffer_pool_manager.cpp\<close> before \<open>write_page\<close>). The pool's operations are
  collected in the step relation \<open>bp_step\<close>, whose reachable states from the
  constructor satisfy both \<open>bp_inv\<close> and \<open>wal_inv\<close>.
\<close>

section \<open>Definitions\<close>

text \<open>The WAL invariant.\<close>

definition wal_inv :: "buffer_pool \<Rightarrow> bool" where
  "wal_inv s \<longleftrightarrow> log_inv (log_mgr s) \<and>
     (\<forall>p \<in> set (pages s). page_lsn p < global_lsn (log_mgr s)) \<and>
     (\<forall>w \<in> set (page_writes s). fst (snd w) \<le> snd (snd w))"

text \<open>The \<open>ENABLE_LSN\<close> path of \<open>RmFileHandle::update_record\<close>: append the log
  record, then stamp the frame with \<open>new_lsn\<close>. The code never declares \<open>new_lsn\<close>
  (\<open>add_update_log_record\<close> returns \<open>void\<close>), so that build does not compile; the
  model reads it as the LSN the update record was given, the only LSN of that record.
  In the build that compiles no page is stamped, page LSNs stay \<open>INVALID_LSN\<close> and
  the WAL branch of \<open>update_page\<close> is never taken.\<close>

definition log_and_stamp :: "frame_id \<Rightarrow> txn_id \<Rightarrow> log_payload \<Rightarrow> buffer_pool \<Rightarrow> lsn \<times> buffer_pool" where
  "log_and_stamp f tid p s =
     (let l = global_lsn (log_mgr s); s1 = s\<lparr>log_mgr := add_log_record tid p (log_mgr s)\<rparr>
      in (l, set_page_lsn f l s1))"

text \<open>The pool's operations as a step relation. A fetch is of an allocated page:
  fetching a page number beyond the file's counter and then creating a page of the
  same file would give two frames the same page id.\<close>

datatype bp_op =
    OpFetch PageId | OpUnpin PageId bool | OpFlush PageId | OpNew file_fd | OpDelete PageId
  | OpFlushAll file_fd | OpMarkDirty PageId | OpLogUpdate PageId txn_id log_payload

inductive bp_step :: "buffer_pool \<Rightarrow> bp_op \<Rightarrow> buffer_pool \<Rightarrow> bool" where
  fetch: "pid_page_no pid < fd2pageno (disk s) (pid_fd pid) \<Longrightarrow> fetch_page pid s = Inr (r, s') \<Longrightarrow>
    bp_step s (OpFetch pid) s'"
| unpin: "bp_step s (OpUnpin pid d) (snd (unpin_page pid d s))"
| flush: "bp_step s (OpFlush pid) (snd (flush_page pid s))"
| new: "bp_step s (OpNew fd) (snd (new_page fd s))"
| delete: "bp_step s (OpDelete pid) (snd (delete_page pid s))"
| flush_all: "bp_step s (OpFlushAll fd) (flush_all_pages fd s)"
| dirty: "page_table s pid = Some f \<Longrightarrow> bp_step s (OpMarkDirty pid) (mark_dirty f s)"
| log: "page_table s pid = Some f \<Longrightarrow> LOG_HEADER_SIZE + payload_len p \<le> LOG_BUFFER_SIZE \<Longrightarrow>
    bp_step s (OpLogUpdate pid tid p) (snd (log_and_stamp f tid p s))"

inductive bp_reach :: "buffer_pool \<Rightarrow> bool" where
  init: "\<forall>fd. 0 \<le> fd2pageno dm fd \<Longrightarrow> bp_reach (bp_init n dm log_init)"
| step: "bp_reach s \<Longrightarrow> bp_step s op s' \<Longrightarrow> bp_reach s'"


text \<open>A small concrete run: two frames, one page created and then flushed; and a
  one-frame pool whose only frame is pinned.\<close>

definition demo_disk :: disk_manager where
  "demo_disk = \<lparr>disk_pages = (\<lambda>_. zero_page), fd2pageno = (\<lambda>_. 0)\<rparr>"

definition demo_pool :: buffer_pool where
  "demo_pool = snd (flush_page (PageId 0 0) (snd (new_page 0 (bp_init 2 demo_disk log_init))))"

definition demo_full :: buffer_pool where
  "demo_full = snd (new_page 0 (bp_init 1 demo_disk log_init))"

section \<open>WAL preservation\<close>

lemma log_inv_global_nonneg: "log_inv lm \<Longrightarrow> 0 \<le> global_lsn lm"
  by (simp add: log_inv_def)

lemma flush_log_global [simp]: "global_lsn (flush_log_to_disk lm) = global_lsn lm"
  by (simp add: flush_log_to_disk_def)

lemma wal_inv_upd [simp]:
  "wal_inv (s\<lparr>page_table := t\<rparr>) = wal_inv s" "wal_inv (s\<lparr>replacer := r\<rparr>) = wal_inv s"
  "wal_inv (s\<lparr>free_list := fl\<rparr>) = wal_inv s" "wal_inv (s\<lparr>disk := dm\<rparr>) = wal_inv s"
  by (simp_all add: wal_inv_def)

lemma write_back_wal:
  assumes w: "wal_inv s" and p: "page_lsn p < global_lsn (log_mgr s)"
  shows "wal_inv (write_back pid p s)"
proof (cases "page_lsn p > persist_lsn (log_mgr s)")
  case True
  have "persist_lsn (flush_log_to_disk (log_mgr s)) = global_lsn (log_mgr s) - 1"
    by (simp add: flush_log_to_disk_def)
  with True w p show ?thesis
    by (auto simp: wal_inv_def write_back_def flush_log_inv)
next
  case False
  with w show ?thesis by (auto simp: wal_inv_def write_back_def)
qed

lemma wal_inv_pages:
  assumes "wal_inv s" "page_lsn x < global_lsn (log_mgr s)"
  shows "wal_inv (s\<lparr>pages := (pages s)[f := x]\<rparr>)"
  using assms set_update_subset_insert[of "pages s" f x] unfolding wal_inv_def by auto

lemma wal_frame_lsn: "wal_inv s \<Longrightarrow> f < length (pages s) \<Longrightarrow> page_lsn (pages s ! f) < global_lsn (log_mgr s)"
  by (simp add: wal_inv_def)

lemma wal_invalid_lsn: "wal_inv s \<Longrightarrow> INVALID_LSN < global_lsn (log_mgr s)"
  by (auto simp: wal_inv_def INVALID_LSN_def dest: log_inv_global_nonneg)

lemma wal_header_update:
  assumes "wal_inv s" "page_lsn x = page_lsn (pages s ! f)"
  shows "wal_inv (s\<lparr>pages := (pages s)[f := x]\<rparr>)"
proof (cases "f < length (pages s)")
  case True
  then show ?thesis using assms by (intro wal_inv_pages) (simp_all add: wal_frame_lsn)
next
  case False
  then show ?thesis using assms(1) unfolding wal_inv_def by (simp add: not_less list_update_beyond)
qed

lemma write_back_log_fields:
  "global_lsn (log_mgr (write_back pid p s)) = global_lsn (log_mgr s)"
  by (simp add: write_back_def Let_def)

lemma update_page_wal:
  assumes w: "wal_inv s" and f: "f < length (pages s)"
  shows "wal_inv (update_page f pid s)"
proof -
  let ?p = "pages s ! f"
  let ?s1 = "if is_dirty ?p then write_back (page_id ?p) ?p s else s"
  let ?t = "?s1\<lparr>page_table := ((page_table ?s1)(pid \<mapsto> f))(page_id ?p := None)\<rparr>"
  let ?x = "?p\<lparr>page_id := pid, data := zero_page, is_dirty := False, page_lsn := INVALID_LSN\<rparr>"
  have w1: "wal_inv ?s1" using w write_back_wal[OF w wal_frame_lsn[OF w f]] by simp
  have pg: "pages ?t = pages s"
    by (simp add: write_back_fields)
  have wt: "wal_inv ?t" using w1 by simp
  have eq: "update_page f pid s = ?t\<lparr>pages := (pages ?t)[f := ?x]\<rparr>"
    by (simp add: update_page_def Let_def write_back_fields)
  show ?thesis unfolding eq
    using wal_inv_pages[OF wt] wal_invalid_lsn[OF wt] by simp
qed

lemma update_page_lsn_global:
  "global_lsn (log_mgr (update_page f pid s)) = global_lsn (log_mgr s)"
  by (simp add: update_page_def Let_def write_back_log_fields)

lemma unpin_page_wal: "wal_inv s \<Longrightarrow> wal_inv (snd (unpin_page pid d s))"
  by (auto simp: unpin_page_def Let_def intro!: wal_header_update [simplified] split: option.splits)

lemma find_victim_wal [simp]: "wal_inv (snd (find_victim_page s)) = wal_inv s"
  by (simp add: find_victim_page_def split: prod.splits)

lemma find_victim_len:
  "bp_inv s \<Longrightarrow> find_victim_page s = (Some f, s1) \<Longrightarrow> f < length (pages s1)"
  using find_victim_detached[of s f] detached_fields[of s1 f] by simp

lemma fetch_page_wal:
  assumes inv: "bp_inv s" and w: "wal_inv s" and ok: "fetch_page pid s = Inr (r, s')"
  shows "wal_inv s'"
proof (cases "page_table s pid")
  case (Some f)
  with ok have "s' = s\<lparr>pages := (pages s)[f := (pages s ! f)\<lparr>pin_count := pin_count (pages s ! f) + 1\<rparr>],
                       replacer := pin f (replacer s)\<rparr>"
    by (simp add: fetch_page_def)
  then show ?thesis using wal_header_update[OF w] by simp
next
  case None
  show ?thesis
  proof (cases "find_victim_page s")
    case (Pair v s1)
    have w1: "wal_inv s1" using w Pair find_victim_wal[of s] by simp
    show ?thesis
    proof (cases v)
      case None': None
      with ok None Pair w1 show ?thesis by (simp add: fetch_page_def)
    next
      case (Some f)
      let ?s2 = "update_page f pid s1"
      have s': "s' = ?s2\<lparr>pages := (pages ?s2)[f := (pages ?s2 ! f)\<lparr>data := read_page (disk ?s2) pid, pin_count := 1\<rparr>],
                          replacer := pin f (replacer ?s2)\<rparr>"
        using ok None Pair Some by (simp add: fetch_page_def Let_def split: if_splits)
      have w2: "wal_inv ?s2"
        using update_page_wal[OF w1 find_victim_len[OF inv]] Pair Some by simp
      show ?thesis unfolding s' using wal_header_update[OF w2] by simp
    qed
  qed
qed

lemma flush_frame_wal:
  assumes w: "wal_inv s" and f: "f < length (pages s)"
  shows "wal_inv ((write_back pid (pages s ! f) s)\<lparr>pages := (pages (write_back pid (pages s ! f) s))[f := (pages s ! f)\<lparr>is_dirty := False\<rparr>]\<rparr>)"
proof -
  have w1: "wal_inv (write_back pid (pages s ! f) s)" by (rule write_back_wal[OF w wal_frame_lsn[OF w f]])
  show ?thesis using wal_header_update[OF w1] by (simp add: write_back_fields)
qed

lemma table_len: "bp_inv s \<Longrightarrow> page_table s pid = Some f \<Longrightarrow> f < length (pages s)"
  using table_facts(1)[of s pid f] by (simp add: bp_inv_def bp_shape_def)

lemma flush_page_wal: "bp_inv s \<Longrightarrow> wal_inv s \<Longrightarrow> wal_inv (snd (flush_page pid s))"
  by (auto simp: flush_page_def Let_def intro: flush_frame_wal table_len split: option.splits)

lemma delete_page_wal: "wal_inv s \<Longrightarrow> wal_inv (snd (delete_page pid s))"
  using wal_invalid_lsn[of s]
  by (auto simp: delete_page_def Let_def wal_inv_def split: option.splits
      dest!: set_update_subset_insert [THEN subsetD])

lemma mark_dirty_wal: "wal_inv s \<Longrightarrow> wal_inv (mark_dirty f s)"
  unfolding mark_dirty_def by (rule wal_header_update) simp_all

lemma set_page_lsn_wal: "wal_inv s \<Longrightarrow> l < global_lsn (log_mgr s) \<Longrightarrow> wal_inv (set_page_lsn f l s)"
  unfolding set_page_lsn_def by (rule wal_inv_pages) simp_all

lemma flush_all_from_wal:
  "wal_inv s \<Longrightarrow> \<forall>i \<in> set is. i < length (pages s) \<Longrightarrow> wal_inv (flush_all_from fd is s)"
proof (induction "is" arbitrary: s)
  case (Cons i "is")
  have i: "i < length (pages s)" using Cons.prems by simp
  have "wal_inv (flush_all_from fd is
          ((write_back (page_id (pages s ! i)) (pages s ! i) s)\<lparr>pages := (pages (write_back (page_id (pages s ! i)) (pages s ! i) s))[i := (pages s ! i)\<lparr>is_dirty := False\<rparr>]\<rparr>))"
    using Cons flush_frame_wal[OF Cons.prems(1) i] by (simp add: write_back_fields)
  then show ?case using Cons by (simp add: Let_def)
qed simp

lemma flush_all_pages_wal: "bp_inv s \<Longrightarrow> wal_inv s \<Longrightarrow> wal_inv (flush_all_pages fd s)"
  by (simp add: flush_all_pages_def flush_all_from_wal bp_inv_def bp_shape_def)

lemma new_page_wal:
  assumes inv: "bp_inv s" and w: "wal_inv s"
  shows "wal_inv (snd (new_page fd s))"
proof (cases "find_victim_page s")
  case (Pair v s1)
  have w1: "wal_inv s1" using w Pair find_victim_wal[of s] by simp
  show ?thesis
  proof (cases v)
    case None
    with Pair w1 show ?thesis by (simp add: new_page_def)
  next
    case (Some f)
    obtain pno dm where al: "allocate_page fd (disk s1) = (pno, dm)" by fastforce
    let ?s2 = "update_page f (PageId fd pno) (s1\<lparr>disk := dm\<rparr>)"
    have len: "f < length (pages (s1\<lparr>disk := dm\<rparr>))" using find_victim_len[OF inv] Pair Some by simp
    have w2: "wal_inv ?s2" using update_page_wal[OF _ len] w1 by simp
    have eq: "snd (new_page fd s) = ?s2\<lparr>pages := (pages ?s2)[f := (pages ?s2 ! f)\<lparr>is_dirty := True, pin_count := 1\<rparr>],
                 replacer := pin f (replacer ?s2)\<rparr>"
      using Pair Some al by (simp add: new_page_def Let_def)
    show ?thesis unfolding eq using wal_header_update[OF w2] by simp
  qed
qed

lemma log_and_stamp_wal:
  assumes w: "wal_inv s" and fits: "LOG_HEADER_SIZE + payload_len p \<le> LOG_BUFFER_SIZE"
  shows "wal_inv (snd (log_and_stamp f tid p s))"
proof -
  let ?s1 = "s\<lparr>log_mgr := add_log_record tid p (log_mgr s)\<rparr>"
  have "wal_inv ?s1"
    using w add_log_record_inv[OF _ fits] unfolding wal_inv_def
    by (auto simp: add_log_record_global)
  moreover have "global_lsn (log_mgr s) < global_lsn (log_mgr ?s1)" by (simp add: add_log_record_global)
  ultimately show ?thesis unfolding log_and_stamp_def Let_def snd_conv by (rule set_page_lsn_wal)
qed

lemma log_and_stamp_inv:
  assumes inv: "bp_inv s" and t: "page_table s pid = Some f"
  shows "bp_inv (snd (log_and_stamp f tid p s))"
proof -
  let ?s1 = "s\<lparr>log_mgr := add_log_record tid p (log_mgr s)\<rparr>"
  have "bp_inv ?s1" using inv by (subst bp_inv_cong[of ?s1 s]) simp_all
  then show ?thesis unfolding log_and_stamp_def Let_def snd_conv
    by (rule set_page_lsn_inv) (use t in simp)
qed

section \<open>Reachable states\<close>

inductive_cases bp_step_fetchE: "bp_step s (OpFetch pid) s'"

lemma bp_init_inv: "\<forall>fd. 0 \<le> fd2pageno dm fd \<Longrightarrow> bp_inv (bp_init n dm lm)"
  by (simp add: bp_inv_def bp_init_def bp_shape_def free_ok_def table_ok_def cover_ok_def
      hash_sound_def hash_complete_def lru_new_def lru_inv_def new_frame_def INVALID_PAGE_ID_def resident_def)

lemma bp_init_wal: "wal_inv (bp_init n dm log_init)"
  unfolding wal_inv_def bp_init_def using log_inv_init by (simp add: new_frame_def INVALID_LSN_def log_init_def)

lemma bp_step_inv: "bp_step s op s' \<Longrightarrow> bp_inv s \<Longrightarrow> bp_inv s'"
  by (induction rule: bp_step.induct)
    (auto intro: fetch_page_inv unpin_page_inv flush_page_inv new_page_inv delete_page_inv
      flush_all_pages_inv mark_dirty_inv log_and_stamp_inv)

lemma bp_step_wal: "bp_step s op s' \<Longrightarrow> bp_inv s \<Longrightarrow> wal_inv s \<Longrightarrow> wal_inv s'"
  by (induction rule: bp_step.induct)
    (auto intro: fetch_page_wal unpin_page_wal flush_page_wal new_page_wal delete_page_wal
      flush_all_pages_wal mark_dirty_wal log_and_stamp_wal)

lemma bp_reach_inv: "bp_reach s \<Longrightarrow> bp_inv s \<and> wal_inv s"
  by (induction rule: bp_reach.induct) (auto intro: bp_init_inv bp_init_wal bp_step_inv bp_step_wal)

lemma unpinned_iff_available:
  assumes inv: "bp_inv s" and f: "f < pool_size s"
  shows "(pin_count (pages s ! f) = 0 \<longleftrightarrow> f \<in> lru_hash (replacer s) \<union> set (free_list s)) \<and>
         \<not> (f \<in> lru_hash (replacer s) \<and> f \<in> set (free_list s))"
proof -
  have p: "free_ok s" "table_ok s" "cover_ok s" "hash_sound s" "hash_complete s"
    using inv by (simp_all add: bp_inv_def)
  have "f \<in> set (free_list s) \<Longrightarrow> \<not> resident s f" using free_not_resident[OF p(1,2)] by blast
  moreover have "f \<in> lru_hash (replacer s) \<Longrightarrow> resident s f" using hash_soundD[OF p(4)] by blast
  moreover have "f \<in> set (free_list s) \<or> resident s f" using p(3) f by (simp add: cover_ok_def)
  ultimately show ?thesis
    using f hash_iff_unpinned[OF inv f] free_okD[OF p(1)] by blast
qed

lemma all_pinned_iff:
  assumes inv: "bp_inv s"
  shows "(free_list s = [] \<and> lru_list (replacer s) = []) \<longleftrightarrow> (\<forall>f < pool_size s. 0 < pin_count (pages s ! f))"
proof -
  have p: "free_ok s" "hash_sound s" "lru_inv (replacer s)"
    using inv by (simp_all add: bp_inv_def bp_shape_def)
  have fl: "\<forall>f \<in> set (free_list s). f < pool_size s \<and> pin_count (pages s ! f) = 0"
    using free_okD[OF p(1)] by blast
  have hl: "\<forall>f \<in> set (lru_list (replacer s)). f < pool_size s \<and> pin_count (pages s ! f) = 0"
    using hash_soundD[OF p(2)] p(3) by (simp add: lru_inv_def)
  show ?thesis
  proof
    assume "free_list s = [] \<and> lru_list (replacer s) = []"
    then show "\<forall>f < pool_size s. 0 < pin_count (pages s ! f)"
      using unpinned_iff_available[OF inv] p(3) by (auto simp: lru_inv_def)
  next
    assume "\<forall>f < pool_size s. 0 < pin_count (pages s ! f)"
    then show "free_list s = [] \<and> lru_list (replacer s) = []"
      using fl hl by (metis gr_implies_not0 list.set_intros(1) neq_Nil_conv)
  qed
qed

lemma find_victim_empty:
  "free_list s = [] \<Longrightarrow> lru_list (replacer s) = [] \<Longrightarrow> find_victim_page s = (None, s)"
  by (simp add: find_victim_page_def victim_def)

lemma fetch_null_iff:
  assumes inv: "bp_inv s" and miss: "page_table s pid = None"
  shows "fetch_page pid s = Inr (None, s) \<longleftrightarrow> (\<forall>f < pool_size s. 0 < pin_count (pages s ! f))"
proof
  assume r: "fetch_page pid s = Inr (None, s)"
  have "fst (find_victim_page s) = None"
    using r miss by (auto simp: fetch_page_def Let_def split: prod.splits option.splits if_splits)
  then show "\<forall>f < pool_size s. 0 < pin_count (pages s ! f)"
    using find_victim_None all_pinned_iff[OF inv] by blast
next
  assume "\<forall>f < pool_size s. 0 < pin_count (pages s ! f)"
  then show "fetch_page pid s = Inr (None, s)"
    using all_pinned_iff[OF inv] miss by (simp add: fetch_page_def find_victim_empty)
qed

lemma demo_pool_reach: "bp_reach demo_pool"
proof -
  have r0: "bp_reach (bp_init 2 demo_disk log_init)" by (rule bp_reach.init) (simp add: demo_disk_def)
  have r1: "bp_reach (snd (new_page 0 (bp_init 2 demo_disk log_init)))" by (rule bp_reach.step[OF r0 bp_step.new])
  show ?thesis unfolding demo_pool_def by (rule bp_reach.step[OF r1 bp_step.flush])
qed

lemma demo_full_reach: "bp_reach demo_full"
proof -
  have r0: "bp_reach (bp_init 1 demo_disk log_init)" by (rule bp_reach.init) (simp add: demo_disk_def)
  show ?thesis unfolding demo_full_def by (rule bp_reach.step[OF r0 bp_step.new])
qed

lemma demo_pool_eval:
  "page_writes demo_pool = [(PageId 0 0, INVALID_LSN, -1)]"
  "pool_size demo_pool = 2" "pin_count (pages demo_pool ! 1) = 0" "free_list demo_pool = [1]"
  "pin_count (pages demo_pool ! 0) = 1"
  by (simp_all add: demo_pool_def new_page_def find_victim_page_def bp_init_def allocate_page_def
      demo_disk_def update_page_def Let_def flush_page_def write_back_def log_init_def new_frame_def
      INVALID_LSN_def upt_rec)

lemma demo_full_eval:
  "pool_size demo_full = 1" "pin_count (pages demo_full ! 0) = 1" "page_table demo_full (PageId 0 7) = None"
  by (simp_all add: demo_full_def new_page_def find_victim_page_def bp_init_def allocate_page_def
      demo_disk_def update_page_def Let_def new_frame_def)

section \<open>Properties\<close>

text \<open>C1. Every state the buffer pool reaches from its constructor, through any
  sequence of its public operations, satisfies the structural invariant (page table,
  free list and replacer agree with the frames) and the WAL invariant.\<close>

theorem bp_reachable_invariant: "bp_reach s \<Longrightarrow> bp_inv s \<and> wal_inv s"
  by (rule bp_reach_inv)

theorem bp_reachable_invariant_witness: "bp_inv demo_pool \<and> wal_inv demo_pool"
  using bp_reachable_invariant[OF demo_pool_reach] .

text \<open>C2. Write-ahead logging: whenever the pool writes a page image to disk, the
  page's LSN is at or below the log manager's \<open>persist_lsn_\<close> at that moment.\<close>

theorem wal_before_page_write:
  "bp_reach s \<Longrightarrow> (pid, l, p) \<in> set (page_writes s) \<Longrightarrow> l \<le> p"
  using bp_reach_inv[of s] by (auto simp: wal_inv_def)

theorem wal_before_page_write_witness:
  "(PageId 0 0, INVALID_LSN, -1) \<in> set (page_writes demo_pool) \<and> INVALID_LSN \<le> -1"
  using wal_before_page_write[OF demo_pool_reach, of "PageId 0 0" INVALID_LSN "-1"]
  by (simp add: demo_pool_eval)

text \<open>C3. In every reachable state a frame is unpinned exactly when it is on the
  free list or in the replacer, and never in both.\<close>

theorem unpinned_frame_available:
  "bp_reach s \<Longrightarrow> f < pool_size s \<Longrightarrow>
     (pin_count (pages s ! f) = 0 \<longleftrightarrow> f \<in> lru_hash (replacer s) \<union> set (free_list s)) \<and>
     \<not> (f \<in> lru_hash (replacer s) \<and> f \<in> set (free_list s))"
  using bp_reach_inv[of s] unpinned_iff_available[of s f] by blast

theorem unpinned_frame_available_witness:
  "1 \<in> lru_hash (replacer demo_pool) \<union> set (free_list demo_pool)"
  using unpinned_frame_available[OF demo_pool_reach, of 1] by (simp add: demo_pool_eval)

text \<open>C4. \<open>fetch_page\<close> of a page that is not resident returns the null pointer,
  leaving the pool unchanged, exactly when every frame is pinned.\<close>

theorem fetch_null_iff_all_pinned:
  "bp_inv s \<Longrightarrow> page_table s pid = None \<Longrightarrow>
     fetch_page pid s = Inr (None, s) \<longleftrightarrow> (\<forall>f < pool_size s. 0 < pin_count (pages s ! f))"
  by (rule fetch_null_iff)

theorem fetch_null_iff_all_pinned_witness:
  "fetch_page (PageId 0 7) demo_full = Inr (None, demo_full)"
proof -
  have "bp_inv demo_full" using bp_reach_inv[OF demo_full_reach] by simp
  then show ?thesis using fetch_null_iff_all_pinned[of demo_full "PageId 0 7"]
    by (simp add: demo_full_eval less_Suc_eq)
qed

end
