(* ===== verification/Lock_Manager.thy ===== *)
theory Lock_Manager
  imports Prelude
begin

text \<open>
  The lock manager of \<open>transaction/concurrency/lock_manager.cpp\<close>. The lock table maps
  a lockable object (a table or a record of a table) to its request queue; a request
  is a transaction id with a lock mode. Each of the six request functions is the
  same no-wait algorithm with its own conflict test and its own upgrade of an
  existing entry of the requesting transaction; \<open>lock_on\<close> is that common body and
  each function is \<open>lock_on\<close> with the code's test and upgrade. A conflict is the
  exception \<open>TransactionAbortException\<close>, the \<open>Inl\<close> branch of the result.
\<close>

section \<open>Types\<close>

text \<open>\<open>enum class LockMode\<close> with the source's constructor names, and the other
  enumerations of \<open>transaction/txn_defs.h\<close> the lock manager uses.\<close>

datatype LockMode = SHARED | EXLUCSIVE | INTENTION_SHARED | INTENTION_EXCLUSIVE | S_IX

datatype LockDataId = TableLock file_fd | RecordLock file_fd Rid

datatype TransactionState = DEFAULT | GROWING | SHRINKING | COMMITTED | ABORTED

datatype AbortReason = LOCK_ON_SHIRINKING | UPGRADE_CONFLICT | DEADLOCK_PREVENTION

record lock_request =
  req_txn :: txn_id
  req_mode :: LockMode

text \<open>The part of \<open>class Transaction\<close> the lock manager reads and writes: its id,
  its state and its lock set (an \<open>unordered_set\<close>, kept as a list without duplicates).\<close>

record transaction =
  txn_id :: txn_id
  txn_state :: TransactionState
  lock_set :: "LockDataId list"

type_synonym lock_table = "LockDataId \<rightharpoonup> lock_request list"

type_synonym lock_result = "(txn_id \<times> AbortReason) + (transaction \<times> lock_table)"

section \<open>Operations\<close>

definition append_lock_set :: "LockDataId \<Rightarrow> transaction \<Rightarrow> transaction" where
  "append_lock_set lid t = t\<lparr>lock_set := List.insert lid (lock_set t)\<rparr>"

text \<open>The second loop of every request function: the first entry of the requesting
  transaction gets its mode rewritten, and the loop breaks.\<close>

fun upgrade_first :: "txn_id \<Rightarrow> (LockMode \<Rightarrow> LockMode) \<Rightarrow> lock_request list \<Rightarrow> lock_request list" where
  "upgrade_first t u [] = []"
| "upgrade_first t u (r # rs) =
     (if req_txn r = t then r\<lparr>req_mode := u (req_mode r)\<rparr> # rs else r # upgrade_first t u rs)"

text \<open>The common body of the request functions: the 2PL check, a fresh queue, the
  no-wait scan for a conflicting entry of another transaction, then either the
  upgrade of the transaction's own entry or a new entry at the end.\<close>

definition lock_on :: "(LockMode \<Rightarrow> bool) \<Rightarrow> (LockMode \<Rightarrow> LockMode) \<Rightarrow> LockMode \<Rightarrow> LockDataId \<Rightarrow>
    transaction \<Rightarrow> lock_table \<Rightarrow> lock_result" where
  "lock_on conflict upgrade mode lid t lt =
     (if txn_state t = SHRINKING then Inl (txn_id t, LOCK_ON_SHIRINKING)
      else case lt lid of
        None \<Rightarrow> Inr (append_lock_set lid t, lt(lid \<mapsto> [\<lparr>req_txn = txn_id t, req_mode = mode\<rparr>]))
      | Some q \<Rightarrow>
          if list_ex (\<lambda>r. req_txn r \<noteq> txn_id t \<and> conflict (req_mode r)) q
          then Inl (txn_id t, DEADLOCK_PREVENTION)
          else if list_ex (\<lambda>r. req_txn r = txn_id t) q
          then Inr (t, lt(lid \<mapsto> upgrade_first (txn_id t) upgrade q))
          else Inr (append_lock_set lid t, lt(lid \<mapsto> q @ [\<lparr>req_txn = txn_id t, req_mode = mode\<rparr>])))"

definition lock_shared_on_record :: "transaction \<Rightarrow> Rid \<Rightarrow> file_fd \<Rightarrow> lock_table \<Rightarrow> lock_result" where
  "lock_shared_on_record t rid fd =
     lock_on (\<lambda>m. m = EXLUCSIVE) id SHARED (RecordLock fd rid) t"

definition lock_exclusive_on_record :: "transaction \<Rightarrow> Rid \<Rightarrow> file_fd \<Rightarrow> lock_table \<Rightarrow> lock_result" where
  "lock_exclusive_on_record t rid fd =
     lock_on (\<lambda>m. True) (\<lambda>m. if m = SHARED then EXLUCSIVE else m) EXLUCSIVE (RecordLock fd rid) t"

definition lock_shared_on_table :: "transaction \<Rightarrow> file_fd \<Rightarrow> lock_table \<Rightarrow> lock_result" where
  "lock_shared_on_table t fd =
     lock_on (\<lambda>m. m = EXLUCSIVE \<or> m = INTENTION_EXCLUSIVE \<or> m = S_IX)
       (\<lambda>m. if m = INTENTION_SHARED then SHARED else if m = INTENTION_EXCLUSIVE then S_IX else m)
       SHARED (TableLock fd) t"

definition lock_exclusive_on_table :: "transaction \<Rightarrow> file_fd \<Rightarrow> lock_table \<Rightarrow> lock_result" where
  "lock_exclusive_on_table t fd = lock_on (\<lambda>m. True) (\<lambda>m. EXLUCSIVE) EXLUCSIVE (TableLock fd) t"

definition lock_IS_on_table :: "transaction \<Rightarrow> file_fd \<Rightarrow> lock_table \<Rightarrow> lock_result" where
  "lock_IS_on_table t fd = lock_on (\<lambda>m. m = EXLUCSIVE) id INTENTION_SHARED (TableLock fd) t"

definition lock_IX_on_table :: "transaction \<Rightarrow> file_fd \<Rightarrow> lock_table \<Rightarrow> lock_result" where
  "lock_IX_on_table t fd =
     lock_on (\<lambda>m. m = EXLUCSIVE \<or> m = S_IX \<or> m = SHARED)
       (\<lambda>m. if m = INTENTION_SHARED then INTENTION_EXCLUSIVE else if m = SHARED then S_IX else m)
       INTENTION_EXCLUSIVE (TableLock fd) t"

text \<open>\<open>unlock\<close>: the first entry of the transaction leaves the queue, and an empty
  queue leaves the table. The transaction's lock set is the caller's business.\<close>

fun remove_first_txn :: "txn_id \<Rightarrow> lock_request list \<Rightarrow> lock_request list" where
  "remove_first_txn t [] = []"
| "remove_first_txn t (r # rs) = (if req_txn r = t then rs else r # remove_first_txn t rs)"

definition unlock :: "transaction \<Rightarrow> LockDataId \<Rightarrow> lock_table \<Rightarrow> lock_table" where
  "unlock t lid lt =
     (case lt lid of
        None \<Rightarrow> lt
      | Some q \<Rightarrow> let q' = remove_first_txn (txn_id t) q
                 in if q' = [] then lt(lid := None) else lt(lid \<mapsto> q'))"

text \<open>The six request functions as one operation type, as the executors and the
  record file handle call them.\<close>

datatype lock_op =
    LockSharedOnRecord Rid file_fd | LockExclusiveOnRecord Rid file_fd
  | LockSharedOnTable file_fd | LockExclusiveOnTable file_fd | LockISOnTable file_fd | LockIXOnTable file_fd

fun lock_call :: "lock_op \<Rightarrow> transaction \<Rightarrow> lock_table \<Rightarrow> lock_result" where
  "lock_call (LockSharedOnRecord rid fd) t = lock_shared_on_record t rid fd"
| "lock_call (LockExclusiveOnRecord rid fd) t = lock_exclusive_on_record t rid fd"
| "lock_call (LockSharedOnTable fd) t = lock_shared_on_table t fd"
| "lock_call (LockExclusiveOnTable fd) t = lock_exclusive_on_table t fd"
| "lock_call (LockISOnTable fd) t = lock_IS_on_table t fd"
| "lock_call (LockIXOnTable fd) t = lock_IX_on_table t fd"

fun op_lid :: "lock_op \<Rightarrow> LockDataId" where
  "op_lid (LockSharedOnRecord rid fd) = RecordLock fd rid"
| "op_lid (LockExclusiveOnRecord rid fd) = RecordLock fd rid"
| "op_lid (LockSharedOnTable fd) = TableLock fd"
| "op_lid (LockExclusiveOnTable fd) = TableLock fd"
| "op_lid (LockISOnTable fd) = TableLock fd"
| "op_lid (LockIXOnTable fd) = TableLock fd"

fun op_mode :: "lock_op \<Rightarrow> LockMode" where
  "op_mode (LockSharedOnRecord rid fd) = SHARED"
| "op_mode (LockExclusiveOnRecord rid fd) = EXLUCSIVE"
| "op_mode (LockSharedOnTable fd) = SHARED"
| "op_mode (LockExclusiveOnTable fd) = EXLUCSIVE"
| "op_mode (LockISOnTable fd) = INTENTION_SHARED"
| "op_mode (LockIXOnTable fd) = INTENTION_EXCLUSIVE"

section \<open>Specification\<close>

text \<open>The least mode that grants both of two modes (IS below IX and S, both below SIX,
  X on top).\<close>

definition mode_join :: "LockMode \<Rightarrow> LockMode \<Rightarrow> LockMode" where
  "mode_join a b =
     (if a = b then a else if a = INTENTION_SHARED then b else if b = INTENTION_SHARED then a
      else if a = EXLUCSIVE \<or> b = EXLUCSIVE then EXLUCSIVE else S_IX)"

text \<open>The standard compatibility matrix of hierarchical locking (IS, IX, S, SIX, X).\<close>

fun compatible :: "LockMode \<Rightarrow> LockMode \<Rightarrow> bool" where
  "compatible INTENTION_SHARED m = (m \<noteq> EXLUCSIVE)"
| "compatible INTENTION_EXCLUSIVE m = (m = INTENTION_SHARED \<or> m = INTENTION_EXCLUSIVE)"
| "compatible SHARED m = (m = INTENTION_SHARED \<or> m = SHARED)"
| "compatible S_IX m = (m = INTENTION_SHARED)"
| "compatible EXLUCSIVE m = False"

text \<open>Record locks are only ever shared or exclusive.\<close>

fun mode_ok :: "LockDataId \<Rightarrow> LockMode \<Rightarrow> bool" where
  "mode_ok (TableLock fd) m = True"
| "mode_ok (RecordLock fd rid) m = (m = SHARED \<or> m = EXLUCSIVE)"

text \<open>A queue is well formed when it is not empty, holds one entry per transaction,
  in modes its object admits, and the entries of different transactions are
  compatible.\<close>

definition queue_ok :: "LockDataId \<Rightarrow> lock_request list \<Rightarrow> bool" where
  "queue_ok lid q \<longleftrightarrow> q \<noteq> [] \<and> distinct (map req_txn q) \<and> (\<forall>r \<in> set q. mode_ok lid (req_mode r)) \<and>
     (\<forall>r1 \<in> set q. \<forall>r2 \<in> set q. req_txn r1 \<noteq> req_txn r2 \<longrightarrow> compatible (req_mode r1) (req_mode r2))"

definition lt_inv :: "lock_table \<Rightarrow> bool" where
  "lt_inv lt \<longleftrightarrow> (\<forall>lid q. lt lid = Some q \<longrightarrow> queue_ok lid q)"

section \<open>Reachable lock tables\<close>

inductive lt_reach :: "lock_table \<Rightarrow> bool" where
  empty: "lt_reach Map.empty"
| lock: "lt_reach lt \<Longrightarrow> lock_call op t lt = Inr (t', lt') \<Longrightarrow> lt_reach lt'"
| unlock: "lt_reach lt \<Longrightarrow> lt_reach (unlock t lid lt)"

text \<open>Transactions and a lock table for the witnesses.\<close>

definition demo_txn :: "txn_id \<Rightarrow> transaction" where
  "demo_txn i = \<lparr>txn_id = i, txn_state = GROWING, lock_set = []\<rparr>"

definition demo_locks :: lock_table where
  "demo_locks = [TableLock 3 \<mapsto> [\<lparr>req_txn = 1, req_mode = INTENTION_SHARED\<rparr>, \<lparr>req_txn = 2, req_mode = INTENTION_EXCLUSIVE\<rparr>]]"

section \<open>Queue lemmas\<close>

lemma compatible_sym: "compatible a b = compatible b a"
  by (cases a; cases b) simp_all

lemma upgrade_first_txns [simp]: "map req_txn (upgrade_first t u q) = map req_txn q"
  by (induction q) auto

lemma upgrade_first_cases:
  "distinct (map req_txn q) \<Longrightarrow> r \<in> set (upgrade_first t u q) \<Longrightarrow>
     (r \<in> set q \<and> req_txn r \<noteq> t) \<or> (\<exists>r0 \<in> set q. req_txn r0 = t \<and> r = r0\<lparr>req_mode := u (req_mode r0)\<rparr>)"
  by (induction q) (fastforce split: if_splits)+

lemma upgrade_first_other:
  "r \<in> set q \<Longrightarrow> req_txn r \<noteq> t \<Longrightarrow> r \<in> set (upgrade_first t u q)"
  by (induction q) auto

lemma upgrade_first_nonempty [simp]: "upgrade_first t u q = [] \<longleftrightarrow> q = []"
  by (cases q) auto

lemma remove_first_txn_subset: "set (remove_first_txn t q) \<subseteq> set q"
  by (induction q) auto

lemma remove_first_txn_distinct:
  "distinct (map req_txn q) \<Longrightarrow> distinct (map req_txn (remove_first_txn t q))"
proof (induction q)
  case (Cons r rs)
  have "set (map req_txn (remove_first_txn t rs)) \<subseteq> set (map req_txn rs)"
    using remove_first_txn_subset[of t rs] by auto
  with Cons show ?case by auto
qed simp

lemma remove_first_txn_gone:
  "distinct (map req_txn q) \<Longrightarrow> r \<in> set (remove_first_txn t q) \<Longrightarrow> req_txn r \<noteq> t"
proof (induction q)
  case (Cons r' rs)
  then show ?case using remove_first_txn_subset[of t rs] by (fastforce split: if_splits)
qed simp

lemma queue_ok_upgrade:
  assumes ok: "queue_ok lid q"
    and noc: "\<not> list_ex (\<lambda>r. req_txn r \<noteq> t \<and> conflict (req_mode r)) q"
    and upg: "\<And>m0 m. mode_ok lid m0 \<Longrightarrow> mode_ok lid m \<Longrightarrow> compatible m0 m \<Longrightarrow> \<not> conflict m \<Longrightarrow>
      compatible (u m0) m"
    and umode: "\<And>m0. mode_ok lid m0 \<Longrightarrow> mode_ok lid (u m0)"
  shows "queue_ok lid (upgrade_first t u q)"
proof -
  have d: "distinct (map req_txn (upgrade_first t u q))" and ne: "upgrade_first t u q \<noteq> []"
    and dq: "distinct (map req_txn q)" and md: "\<forall>r \<in> set q. mode_ok lid (req_mode r)"
    and pc: "\<forall>r1 \<in> set q. \<forall>r2 \<in> set q. req_txn r1 \<noteq> req_txn r2 \<longrightarrow> compatible (req_mode r1) (req_mode r2)"
    using ok by (simp_all add: queue_ok_def)
  have nc: "\<forall>r \<in> set q. req_txn r \<noteq> t \<longrightarrow> \<not> conflict (req_mode r)"
    using noc by (auto simp: list_ex_iff)
  have md': "\<forall>r \<in> set (upgrade_first t u q). mode_ok lid (req_mode r)"
    using upgrade_first_cases[OF dq] md umode by fastforce
  have one: "\<And>r1 r2. r1 \<in> set (upgrade_first t u q) \<Longrightarrow> r2 \<in> set (upgrade_first t u q) \<Longrightarrow>
      req_txn r1 \<noteq> req_txn r2 \<Longrightarrow> req_txn r2 \<noteq> t \<Longrightarrow> compatible (req_mode r1) (req_mode r2)"
  proof -
    fix r1 r2 assume r1: "r1 \<in> set (upgrade_first t u q)" and r2: "r2 \<in> set (upgrade_first t u q)"
      and ne12: "req_txn r1 \<noteq> req_txn r2" and r2t: "req_txn r2 \<noteq> t"
    have r2q: "r2 \<in> set q" using upgrade_first_cases[OF dq r2] r2t by auto
    from upgrade_first_cases[OF dq r1] show "compatible (req_mode r1) (req_mode r2)"
    proof
      assume "r1 \<in> set q \<and> req_txn r1 \<noteq> t"
      then show ?thesis using pc r2q ne12 by blast
    next
      assume "\<exists>r0 \<in> set q. req_txn r0 = t \<and> r1 = r0\<lparr>req_mode := u (req_mode r0)\<rparr>"
      then obtain r0 where r0: "r0 \<in> set q" "req_txn r0 = t" "r1 = r0\<lparr>req_mode := u (req_mode r0)\<rparr>" by blast
      have "compatible (req_mode r0) (req_mode r2)" using pc r0 r2q r2t by auto
      then show ?thesis using upg md nc r0 r2q r2t by simp
    qed
  qed
  have "\<forall>r1 \<in> set (upgrade_first t u q). \<forall>r2 \<in> set (upgrade_first t u q).
      req_txn r1 \<noteq> req_txn r2 \<longrightarrow> compatible (req_mode r1) (req_mode r2)"
  proof (intro ballI impI)
    fix r1 r2 assume a: "r1 \<in> set (upgrade_first t u q)" "r2 \<in> set (upgrade_first t u q)"
      "req_txn r1 \<noteq> req_txn r2"
    show "compatible (req_mode r1) (req_mode r2)"
    proof (cases "req_txn r2 = t")
      case True
      then have "req_txn r1 \<noteq> t" using a(3) by simp
      then show ?thesis using one[OF a(2,1)] a(3) compatible_sym by metis
    qed (use one a in blast)
  qed
  with d ne md' show ?thesis by (simp add: queue_ok_def)
qed

lemma queue_ok_append:
  assumes ok: "queue_ok lid q" and notmine: "\<not> list_ex (\<lambda>r. req_txn r = t) q"
    and noc: "\<not> list_ex (\<lambda>r. req_txn r \<noteq> t \<and> conflict (req_mode r)) q"
    and new: "\<And>m. mode_ok lid m \<Longrightarrow> \<not> conflict m \<Longrightarrow> compatible mode m" and nm: "mode_ok lid mode"
  shows "queue_ok lid (q @ [\<lparr>req_txn = t, req_mode = mode\<rparr>])"
proof -
  have nt: "\<forall>r \<in> set q. req_txn r \<noteq> t" using notmine by (auto simp: list_ex_iff)
  have nc: "\<forall>r \<in> set q. \<not> conflict (req_mode r)" using noc nt by (auto simp: list_ex_iff)
  have md: "\<forall>r \<in> set q. mode_ok lid (req_mode r)" using ok by (simp add: queue_ok_def)
  have "t \<notin> set (map req_txn q)" using nt by auto
  moreover have "\<forall>r \<in> set q. compatible mode (req_mode r) \<and> compatible (req_mode r) mode"
    using nc new md compatible_sym by blast
  ultimately show ?thesis using ok nm unfolding queue_ok_def by auto
qed

lemma queue_ok_remove:
  assumes ok: "queue_ok lid q" and ne: "remove_first_txn t q \<noteq> []"
  shows "queue_ok lid (remove_first_txn t q)"
  using ok ne remove_first_txn_distinct[of q t] remove_first_txn_subset[of t q]
  unfolding queue_ok_def by blast

lemma lt_inv_upd: "lt_inv lt \<Longrightarrow> queue_ok lid q \<Longrightarrow> lt_inv (lt(lid \<mapsto> q))"
  by (simp add: lt_inv_def)

lemma lt_invD: "lt_inv lt \<Longrightarrow> lt lid = Some q \<Longrightarrow> queue_ok lid q"
  by (simp add: lt_inv_def)

section \<open>Invariant preservation\<close>

lemma lock_on_inv:
  assumes inv: "lt_inv lt" and ok: "lock_on C U m lid t lt = Inr (t', lt')"
    and new: "\<And>m'. mode_ok lid m' \<Longrightarrow> \<not> C m' \<Longrightarrow> compatible m m'" and nm: "mode_ok lid m"
    and upg: "\<And>m0 m'. mode_ok lid m0 \<Longrightarrow> mode_ok lid m' \<Longrightarrow> compatible m0 m' \<Longrightarrow> \<not> C m' \<Longrightarrow>
      compatible (U m0) m'"
    and umode: "\<And>m0. mode_ok lid m0 \<Longrightarrow> mode_ok lid (U m0)"
  shows "lt_inv lt'"
proof (cases "lt lid")
  case None
  then have "lt' = lt(lid \<mapsto> [\<lparr>req_txn = txn_id t, req_mode = m\<rparr>])"
    using ok by (simp add: lock_on_def split: if_splits)
  then show ?thesis using inv nm by (simp add: lt_inv_upd queue_ok_def)
next
  case (Some q)
  have q: "queue_ok lid q" using lt_invD[OF inv Some] .
  have noc: "\<not> list_ex (\<lambda>r. req_txn r \<noteq> txn_id t \<and> C (req_mode r)) q"
    using ok Some by (auto simp: lock_on_def split: if_splits)
  show ?thesis
  proof (cases "list_ex (\<lambda>r. req_txn r = txn_id t) q")
    case True
    then have "lt' = lt(lid \<mapsto> upgrade_first (txn_id t) U q)"
      using ok Some noc by (auto simp: lock_on_def split: if_splits)
    then show ?thesis using lt_inv_upd[OF inv queue_ok_upgrade[OF q noc upg umode]] by simp
  next
    case False
    then have "lt' = lt(lid \<mapsto> q @ [\<lparr>req_txn = txn_id t, req_mode = m\<rparr>])"
      using ok Some noc by (simp add: lock_on_def split: if_splits)
    then show ?thesis using lt_inv_upd[OF inv queue_ok_append[OF q False noc new nm]] by simp
  qed
qed

lemma unlock_inv: "lt_inv lt \<Longrightarrow> lt_inv (unlock t lid lt)"
  by (auto simp: unlock_def Let_def lt_inv_def queue_ok_remove split: option.splits)

text \<open>Each request function in the shape of \<open>lock_on\<close>: its conflict test and
  its upgrade, and the obligations of \<open>lock_on_inv\<close> checked on the finite mode type.\<close>

lemma lock_call_lock_on:
  "\<exists>C U. lock_call op t = lock_on C U (op_mode op) (op_lid op) t \<and>
     (\<forall>m'. mode_ok (op_lid op) m' \<longrightarrow> (C m' \<longleftrightarrow> \<not> compatible (op_mode op) m')) \<and>
     (\<forall>m0. mode_ok (op_lid op) m0 \<longrightarrow> U m0 = mode_join m0 (op_mode op))"
proof (cases op)
  case (LockSharedOnRecord rid fd)
  show ?thesis unfolding LockSharedOnRecord
    by (intro exI[of _ "\<lambda>m. m = EXLUCSIVE"] exI[of _ id])
      (auto simp: lock_shared_on_record_def mode_join_def)
next
  case (LockExclusiveOnRecord rid fd)
  show ?thesis unfolding LockExclusiveOnRecord
    by (intro exI[of _ "\<lambda>m. True"] exI[of _ "\<lambda>m. if m = SHARED then EXLUCSIVE else m"])
      (auto simp: lock_exclusive_on_record_def mode_join_def)
next
  case (LockSharedOnTable fd)
  show ?thesis unfolding LockSharedOnTable
    by (intro exI[of _ "\<lambda>m. m = EXLUCSIVE \<or> m = INTENTION_EXCLUSIVE \<or> m = S_IX"]
        exI[of _ "\<lambda>m. if m = INTENTION_SHARED then SHARED else if m = INTENTION_EXCLUSIVE then S_IX else m"])
      (auto simp: lock_shared_on_table_def mode_join_def intro: LockMode.exhaust)
next
  case (LockExclusiveOnTable fd)
  show ?thesis unfolding LockExclusiveOnTable
    by (intro exI[of _ "\<lambda>m. True"] exI[of _ "\<lambda>m. EXLUCSIVE"])
      (auto simp: lock_exclusive_on_table_def mode_join_def)
next
  case (LockISOnTable fd)
  show ?thesis unfolding LockISOnTable
    by (intro exI[of _ "\<lambda>m. m = EXLUCSIVE"] exI[of _ id])
      (auto simp: lock_IS_on_table_def mode_join_def intro: LockMode.exhaust)
next
  case (LockIXOnTable fd)
  show ?thesis unfolding LockIXOnTable
    by (intro exI[of _ "\<lambda>m. m = EXLUCSIVE \<or> m = S_IX \<or> m = SHARED"]
        exI[of _ "\<lambda>m. if m = INTENTION_SHARED then INTENTION_EXCLUSIVE else if m = SHARED then S_IX else m"])
      (auto simp: lock_IX_on_table_def mode_join_def intro: LockMode.exhaust)
qed

lemma compatible_join: "compatible a m \<Longrightarrow> compatible b m \<Longrightarrow> compatible (mode_join a b) m"
  by (cases a; cases b; cases m) (simp_all add: mode_join_def)

lemma mode_ok_join: "mode_ok lid a \<Longrightarrow> mode_ok lid b \<Longrightarrow> mode_ok lid (mode_join a b)"
  by (cases lid) (auto simp: mode_join_def)

lemma mode_ok_op: "mode_ok (op_lid op) (op_mode op)"
  by (cases op) simp_all

lemma lock_call_inv:
  assumes inv: "lt_inv lt" and ok: "lock_call op t lt = Inr (t', lt')"
  shows "lt_inv lt'"
proof -
  obtain C U where eq: "lock_call op t = lock_on C U (op_mode op) (op_lid op) t"
    and c: "\<forall>m'. mode_ok (op_lid op) m' \<longrightarrow> (C m' \<longleftrightarrow> \<not> compatible (op_mode op) m')"
    and u: "\<forall>m0. mode_ok (op_lid op) m0 \<longrightarrow> U m0 = mode_join m0 (op_mode op)"
    using lock_call_lock_on[of op t] by blast
  show ?thesis
  proof (rule lock_on_inv[OF inv])
    show "lock_on C U (op_mode op) (op_lid op) t lt = Inr (t', lt')" using ok eq by simp
    show "mode_ok (op_lid op) (op_mode op)" by (rule mode_ok_op)
  next
    fix m' assume "mode_ok (op_lid op) m'" "\<not> C m'"
    then show "compatible (op_mode op) m'" using c by blast
  next
    fix m0 m' assume a: "mode_ok (op_lid op) m0" "mode_ok (op_lid op) m'" "compatible m0 m'" "\<not> C m'"
    then have "compatible (op_mode op) m'" using c by blast
    then show "compatible (U m0) m'" using u a compatible_join by simp
  next
    fix m0 assume "mode_ok (op_lid op) m0"
    then show "mode_ok (op_lid op) (U m0)" using u mode_ok_join mode_ok_op by simp
  qed
qed

lemma unlock_inv': "lt_inv lt \<Longrightarrow> lt_inv (fold (unlock t) lids lt)"
  by (induction lids arbitrary: lt) (simp_all add: unlock_inv)

lemma lt_reach_inv: "lt_reach lt \<Longrightarrow> lt_inv lt"
  by (induction rule: lt_reach.induct) (simp add: lt_inv_def, blast intro: lock_call_inv, simp add: unlock_inv)

lemma upgrade_first_cong:
  "\<forall>r \<in> set q. req_txn r = t \<longrightarrow> u1 (req_mode r) = u2 (req_mode r) \<Longrightarrow>
     upgrade_first t u1 q = upgrade_first t u2 q"
  by (induction q) auto

lemma lock_on_conflict:
  "txn_state t \<noteq> SHRINKING \<Longrightarrow> lt lid = Some q \<Longrightarrow>
     (lock_on C U M lid t lt = Inl (txn_id t, DEADLOCK_PREVENTION) \<longleftrightarrow>
      list_ex (\<lambda>r. req_txn r \<noteq> txn_id t \<and> C (req_mode r)) q)"
  by (simp add: lock_on_def)

lemma demo_locks_reach: "lt_reach demo_locks"
proof -
  let ?lt1 = "[TableLock 3 \<mapsto> [\<lparr>req_txn = 1, req_mode = INTENTION_SHARED\<rparr>]]"
  have r1: "lt_reach ?lt1"
    by (rule lt_reach.lock[OF lt_reach.empty, of "LockISOnTable 3" "demo_txn 1" "append_lock_set (TableLock 3) (demo_txn 1)"])
      (simp add: lock_IS_on_table_def lock_on_def demo_txn_def)
  show ?thesis
    by (rule lt_reach.lock[OF r1, of "LockIXOnTable 3" "demo_txn 2" "append_lock_set (TableLock 3) (demo_txn 2)"])
      (simp add: lock_IX_on_table_def lock_on_def demo_txn_def demo_locks_def)
qed

section \<open>Properties\<close>

text \<open>C10. In every lock table reachable from the empty table by granted requests and
  unlocks, two entries of different transactions on the same object have modes the
  hierarchical compatibility matrix allows together.\<close>

theorem lock_respects_matrix:
  "lt_reach lt \<Longrightarrow> lt lid = Some q \<Longrightarrow> r1 \<in> set q \<Longrightarrow> r2 \<in> set q \<Longrightarrow> req_txn r1 \<noteq> req_txn r2 \<Longrightarrow>
     compatible (req_mode r1) (req_mode r2)"
  using lt_reach_inv[of lt] by (auto simp: lt_inv_def queue_ok_def)

theorem lock_respects_matrix_witness: "compatible INTENTION_SHARED INTENTION_EXCLUSIVE"
  using lock_respects_matrix[OF demo_locks_reach, of "TableLock 3" _
      "\<lparr>req_txn = 1, req_mode = INTENTION_SHARED\<rparr>" "\<lparr>req_txn = 2, req_mode = INTENTION_EXCLUSIVE\<rparr>"]
  by (simp add: demo_locks_def)

text \<open>C11. No-wait: a request on an object with a queue aborts with
  \<open>DEADLOCK_PREVENTION\<close> exactly when another transaction holds a mode the
  requested mode is incompatible with.\<close>

theorem lock_aborts_iff_incompatible:
  "lt_inv lt \<Longrightarrow> txn_state t \<noteq> SHRINKING \<Longrightarrow> lt (op_lid op) = Some q \<Longrightarrow>
     lock_call op t lt = Inl (txn_id t, DEADLOCK_PREVENTION) \<longleftrightarrow>
     list_ex (\<lambda>r. req_txn r \<noteq> txn_id t \<and> \<not> compatible (op_mode op) (req_mode r)) q"
proof -
  assume inv: "lt_inv lt" and st: "txn_state t \<noteq> SHRINKING" and q: "lt (op_lid op) = Some q"
  obtain C U where eq: "lock_call op t = lock_on C U (op_mode op) (op_lid op) t"
    and c: "\<forall>m'. mode_ok (op_lid op) m' \<longrightarrow> (C m' \<longleftrightarrow> \<not> compatible (op_mode op) m')"
    using lock_call_lock_on[of op t] by blast
  have md: "\<forall>r \<in> set q. mode_ok (op_lid op) (req_mode r)"
    using lt_invD[OF inv q] by (simp add: queue_ok_def)
  have "list_ex (\<lambda>r. req_txn r \<noteq> txn_id t \<and> C (req_mode r)) q \<longleftrightarrow>
        list_ex (\<lambda>r. req_txn r \<noteq> txn_id t \<and> \<not> compatible (op_mode op) (req_mode r)) q"
    using md c by (auto simp: list_ex_iff)
  then show ?thesis using lock_on_conflict[of t lt "op_lid op" q C U "op_mode op", OF st q] eq by simp
qed

theorem lock_aborts_iff_incompatible_witness:
  "lock_exclusive_on_table (demo_txn 2) 5 [TableLock 5 \<mapsto> [\<lparr>req_txn = 1, req_mode = SHARED\<rparr>]] =
     Inl (2, DEADLOCK_PREVENTION)"
proof -
  let ?lt = "[TableLock 5 \<mapsto> [\<lparr>req_txn = 1, req_mode = SHARED\<rparr>]]"
  have inv: "lt_inv ?lt" by (simp add: lt_inv_def queue_ok_def)
  show ?thesis
    using lock_aborts_iff_incompatible[OF inv, of "demo_txn 2" "LockExclusiveOnTable 5"]
    by (simp add: demo_txn_def)
qed

text \<open>C12. A granted request of a transaction already in the queue rewrites its own entry
  to the least mode covering the held and the requested mode (IS to S, IX to SIX on a
  shared request, S to SIX on an IX request, anything to X), and leaves the
  transaction's lock set unchanged.\<close>

theorem lock_upgrade_is_join:
  "lt_inv lt \<Longrightarrow> lt (op_lid op) = Some q \<Longrightarrow> list_ex (\<lambda>r. req_txn r = txn_id t) q \<Longrightarrow>
     lock_call op t lt = Inr (t', lt') \<Longrightarrow>
     t' = t \<and> lt' (op_lid op) = Some (upgrade_first (txn_id t) (\<lambda>m. mode_join m (op_mode op)) q)"
proof -
  assume inv: "lt_inv lt" and q: "lt (op_lid op) = Some q" and mine: "list_ex (\<lambda>r. req_txn r = txn_id t) q"
    and ok: "lock_call op t lt = Inr (t', lt')"
  obtain C U where eq: "lock_call op t = lock_on C U (op_mode op) (op_lid op) t"
    and u: "\<forall>m0. mode_ok (op_lid op) m0 \<longrightarrow> U m0 = mode_join m0 (op_mode op)"
    using lock_call_lock_on[of op t] by blast
  have md: "\<forall>r \<in> set q. mode_ok (op_lid op) (req_mode r)"
    using lt_invD[OF inv q] by (simp add: queue_ok_def)
  have cong: "upgrade_first (txn_id t) U q = upgrade_first (txn_id t) (\<lambda>m. mode_join m (op_mode op)) q"
    using md u by (intro upgrade_first_cong) simp
  show ?thesis using ok eq q mine cong by (auto simp: lock_on_def split: if_splits)
qed

theorem lock_upgrade_is_join_witness:
  "lock_shared_on_table (demo_txn 1) 4 [TableLock 4 \<mapsto> [\<lparr>req_txn = 1, req_mode = INTENTION_EXCLUSIVE\<rparr>]] =
     Inr (demo_txn 1, [TableLock 4 \<mapsto> [\<lparr>req_txn = 1, req_mode = S_IX\<rparr>]])"
proof -
  let ?lt = "[TableLock 4 \<mapsto> [\<lparr>req_txn = 1, req_mode = INTENTION_EXCLUSIVE\<rparr>]]"
  have inv: "lt_inv ?lt" by (simp add: lt_inv_def queue_ok_def)
  have ok: "lock_shared_on_table (demo_txn 1) 4 ?lt =
      Inr (demo_txn 1, ?lt(TableLock 4 \<mapsto> [\<lparr>req_txn = 1, req_mode = S_IX\<rparr>]))"
    by (simp add: lock_shared_on_table_def lock_on_def demo_txn_def)
  have "lock_call (LockSharedOnTable 4) (demo_txn 1) ?lt = Inr (demo_txn 1, ?lt(TableLock 4 \<mapsto> [\<lparr>req_txn = 1, req_mode = S_IX\<rparr>]))"
    using ok by simp
  from lock_upgrade_is_join[OF inv _ _ this, of "[\<lparr>req_txn = 1, req_mode = INTENTION_EXCLUSIVE\<rparr>]"]
  show ?thesis using ok by (simp add: demo_txn_def mode_join_def)
qed

text \<open>Two-phase locking: every request of a transaction in the shrinking phase
  aborts with \<open>LOCK_ON_SHIRINKING\<close>.\<close>

theorem lock_on_shrinking_aborts:
  "txn_state t = SHRINKING \<Longrightarrow> lock_call op t lt = Inl (txn_id t, LOCK_ON_SHIRINKING)"
  by (cases op) (simp_all add: lock_shared_on_record_def lock_exclusive_on_record_def lock_shared_on_table_def
      lock_exclusive_on_table_def lock_IS_on_table_def lock_IX_on_table_def lock_on_def)

theorem lock_on_shrinking_aborts_witness:
  "lock_IS_on_table \<lparr>txn_id = 9, txn_state = SHRINKING, lock_set = []\<rparr> 2 Map.empty = Inl (9, LOCK_ON_SHIRINKING)"
  using lock_on_shrinking_aborts[of "\<lparr>txn_id = 9, txn_state = SHRINKING, lock_set = []\<rparr>" "LockISOnTable 2" Map.empty]
  by simp

end
