(* ===== verification/BTree_Node.thy ===== *)
theory BTree_Node
  imports Prelude
begin

text \<open>
  One node of the B+ tree of \<open>index/ix_index_handle.cpp\<close> (\<open>IxNodeHandle\<close>): its key
  array and its rid array, with \<open>num_key\<close> the length of the key list. A leaf holds one
  rid per key; an internal node holds \<open>num_key + 1\<close> child pointers, child \<open>i\<close> holding
  the keys from \<open>keys[i-1]\<close> (inclusive) to \<open>keys[i]\<close> (exclusive). Keys are compared by
  \<open>ix_compare\<close> with the file's column types; the node operations take that comparison
  as the parameter \<open>cmp\<close>, as the code takes it from \<open>file_hdr\<close>.
\<close>

section \<open>Nodes\<close>

record 'k ix_node =
  node_is_leaf :: bool
  node_keys :: "'k list"
  node_rids :: "Rid list"

datatype ix_error = IndexInsertDuplicatedError | InternalError | AssertFailure

text \<open>Inserting at and removing from a position of an array, as the swap loops do.\<close>

definition insert_at :: "nat \<Rightarrow> 'a \<Rightarrow> 'a list \<Rightarrow> 'a list" where
  "insert_at i x xs = take i xs @ x # drop i xs"

definition remove_at :: "nat \<Rightarrow> 'a list \<Rightarrow> 'a list" where
  "remove_at i xs = take i xs @ drop (Suc i) xs"

text \<open>The binary search loop shared by \<open>lower_bound\<close>, \<open>binary_search\<close> and
  \<open>upper_bound\<close>: \<open>l\<close> moves up to \<open>mid\<close> while the lambda \<open>check\<close> (here \<open>P\<close>)
  holds of the key at \<open>mid\<close>, \<open>r\<close> moves down otherwise.\<close>

function bsearch :: "('k \<Rightarrow> bool) \<Rightarrow> 'k list \<Rightarrow> int \<Rightarrow> int \<Rightarrow> int" where
  "bsearch P ks l r =
     (if r - l > 1 then
        let mid = l + (r - l) div 2
        in if P (ks ! nat mid) then bsearch P ks mid r else bsearch P ks l mid
      else r)"
  by pat_completeness auto
termination
  by (relation "measure (\<lambda>(P, ks, l, r). nat (r - l))") auto

definition get_size :: "'k ix_node \<Rightarrow> int" where
  "get_size n = int (length (node_keys n))"

definition lower_bound :: "('k \<Rightarrow> 'k \<Rightarrow> int) \<Rightarrow> 'k ix_node \<Rightarrow> 'k \<Rightarrow> int" where
  "lower_bound cmp n target = bsearch (\<lambda>k. cmp k target < 0) (node_keys n) (-1) (get_size n)"

definition upper_bound :: "('k \<Rightarrow> 'k \<Rightarrow> int) \<Rightarrow> 'k ix_node \<Rightarrow> 'k \<Rightarrow> int" where
  "upper_bound cmp n target = bsearch (\<lambda>k. cmp k target \<le> 0) (node_keys n) (-1) (get_size n)"

definition binary_search :: "('k \<Rightarrow> 'k \<Rightarrow> int) \<Rightarrow> 'k ix_node \<Rightarrow> 'k \<Rightarrow> int" where
  "binary_search cmp n target =
     (let r = lower_bound cmp n target
      in if r = get_size n \<or> cmp (node_keys n ! nat r) target \<noteq> 0 then -1 else r)"

text \<open>\<open>leaf_lookup\<close>: the rid of the key, if the leaf holds it.\<close>

definition leaf_lookup :: "('k \<Rightarrow> 'k \<Rightarrow> int) \<Rightarrow> 'k ix_node \<Rightarrow> 'k \<Rightarrow> ix_error + Rid option" where
  "leaf_lookup cmp n key =
     (if \<not> node_is_leaf n then Inl AssertFailure
      else let pos = lower_bound cmp n key in
        if pos = get_size n then Inr None
        else if cmp (node_keys n ! nat pos) key \<noteq> 0 then Inr None
        else Inr (Some (node_rids n ! nat pos)))"

text \<open>\<open>internal_lookup\<close>: the page number of the child whose range holds the key.\<close>

definition internal_lookup :: "('k \<Rightarrow> 'k \<Rightarrow> int) \<Rightarrow> 'k ix_node \<Rightarrow> 'k \<Rightarrow> ix_error + int" where
  "internal_lookup cmp n key =
     (let pos = lower_bound cmp n key in
      if pos = get_size n then Inr (rid_page_no (node_rids n ! nat pos))
      else let tmp = cmp key (node_keys n ! nat pos) in
        if tmp = 0 then Inr (rid_page_no (node_rids n ! nat (pos + 1)))
        else if tmp < 0 then Inr (rid_page_no (node_rids n ! nat pos))
        else Inl AssertFailure)"

text \<open>\<open>insert\<close>: a duplicate key throws; otherwise the key goes to its sorted
  position and the rid to the same position in a leaf, one further in an internal node.\<close>

definition node_insert :: "('k \<Rightarrow> 'k \<Rightarrow> int) \<Rightarrow> 'k ix_node \<Rightarrow> 'k \<Rightarrow> Rid \<Rightarrow> ix_error + (int \<times> 'k ix_node)" where
  "node_insert cmp n key v =
     (let pos = lower_bound cmp n key in
      if pos \<noteq> get_size n \<and> cmp key (node_keys n ! nat pos) = 0 then Inl IndexInsertDuplicatedError
      else let n' = n\<lparr>node_keys := insert_at (nat pos) key (node_keys n),
                      node_rids := (if node_is_leaf n then insert_at (nat pos) v (node_rids n)
                                    else insert_at (nat pos + 1) v (node_rids n))\<rparr>
           in Inr (get_size n', n'))"

text \<open>\<open>erase_pair\<close>: a position out of range is ignored.\<close>

definition erase_pair :: "int \<Rightarrow> 'k ix_node \<Rightarrow> 'k ix_node" where
  "erase_pair pos n =
     (if pos < 0 \<or> pos \<ge> get_size n then n
      else n\<lparr>node_keys := remove_at (nat pos) (node_keys n),
             node_rids := (if node_is_leaf n then remove_at (nat pos) (node_rids n)
                           else remove_at (nat pos + 1) (node_rids n))\<rparr>)"

text \<open>\<open>remove\<close>: a missing key throws \<open>InternalError\<close>.\<close>

definition node_remove :: "('k \<Rightarrow> 'k \<Rightarrow> int) \<Rightarrow> 'k ix_node \<Rightarrow> 'k \<Rightarrow> ix_error + (int \<times> 'k ix_node)" where
  "node_remove cmp n key =
     (let pos = lower_bound cmp n key in
      if pos < 0 \<or> pos = get_size n then Inl InternalError
      else if cmp key (node_keys n ! nat pos) \<noteq> 0 then Inl InternalError
      else let n' = erase_pair pos n in Inr (get_size n', n'))"

text \<open>\<open>get_num_vals\<close>, \<open>get_max_size\<close> (\<open>btree_order_ + 1\<close>) and \<open>insert_pairs\<close>: \<open>cnt\<close>
  keys at \<open>key_pos\<close> and \<open>cnt\<close> rids at \<open>rid_pos\<close>, after the three range checks.\<close>

definition get_num_vals :: "'k ix_node \<Rightarrow> int" where
  "get_num_vals n = (if node_is_leaf n then get_size n else get_size n + 1)"

definition get_max_size :: "nat \<Rightarrow> int" where
  "get_max_size order = int order + 1"

definition insert_pairs :: "nat \<Rightarrow> int \<Rightarrow> int \<Rightarrow> 'k list \<Rightarrow> Rid list \<Rightarrow> int \<Rightarrow> 'k ix_node \<Rightarrow> ix_error + 'k ix_node" where
  "insert_pairs order key_pos rid_pos ks rs cnt n =
     (if key_pos < 0 \<or> key_pos > get_size n then Inl InternalError
      else if rid_pos < 0 \<or> rid_pos > get_num_vals n then Inl InternalError
      else if node_is_leaf n \<and> get_size n + cnt > get_max_size order then Inl InternalError
      else if get_size n + cnt > get_max_size order - 1 then Inl InternalError
      else Inr (n\<lparr>node_keys := take (nat key_pos) (node_keys n) @ take (nat cnt) ks @ drop (nat key_pos) (node_keys n),
                  node_rids := take (nat rid_pos) (node_rids n) @ take (nat cnt) rs @ drop (nat rid_pos) (node_rids n)\<rparr>))"

text \<open>\<open>IxIndexHandle::split\<close>, on the contents of the two nodes: the right half of the
  values goes to a fresh node of the same kind through \<open>insert_pairs\<close>, and the old
  node keeps \<open>l\<close> keys (leaf) or \<open>l - 1\<close> keys (internal). The sibling links and
  the parent pointers the code also updates belong to the pages, not modelled here.\<close>

definition ix_split :: "nat \<Rightarrow> 'k ix_node \<Rightarrow> ix_error + ('k ix_node \<times> 'k ix_node)" where
  "ix_split order n =
     (let r = get_num_vals n div 2; l = get_num_vals n - r;
          fresh = \<lparr>node_is_leaf = node_is_leaf n, node_keys = [], node_rids = []\<rparr>;
          new = (if node_is_leaf n
                 then insert_pairs order 0 0 (drop (nat l) (node_keys n)) (drop (nat l) (node_rids n)) r fresh
                 else insert_pairs order 0 0 (drop (nat (get_size n - r)) (node_keys n))
                        (drop (nat (get_num_vals n - r)) (node_rids n)) r fresh)
      in case new of
           Inl e \<Rightarrow> Inl e
         | Inr nn \<Rightarrow>
             let k = (if node_is_leaf n then l else l - 1)
             in Inr (n\<lparr>node_keys := take (nat k) (node_keys n), node_rids := take (nat l) (node_rids n)\<rparr>, nn))"

text \<open>The first step of \<open>insert_into_parent\<close> on an internal right half: its first key
  moves up as the separator, so the keys shift left by one.\<close>

definition shift_first_key :: "'k ix_node \<Rightarrow> 'k ix_node" where
  "shift_first_key n = (if node_is_leaf n then n else n\<lparr>node_keys := tl (node_keys n)\<rparr>)"

section \<open>Specification\<close>

text \<open>The comparison is a strict linear order: \<open>0\<close> exactly on equal keys,
  antisymmetric in sign, transitive.\<close>

definition cmp_linear :: "('k \<Rightarrow> 'k \<Rightarrow> int) \<Rightarrow> bool" where
  "cmp_linear cmp \<longleftrightarrow> (\<forall>a b. cmp a b = 0 \<longleftrightarrow> a = b) \<and> (\<forall>a b. cmp a b < 0 \<longleftrightarrow> 0 < cmp b a) \<and>
     (\<forall>a b c. cmp a b < 0 \<longrightarrow> cmp b c < 0 \<longrightarrow> cmp a c < 0)"

text \<open>A node's keys strictly increase.\<close>

definition keys_sorted :: "('k \<Rightarrow> 'k \<Rightarrow> int) \<Rightarrow> 'k list \<Rightarrow> bool" where
  "keys_sorted cmp ks \<longleftrightarrow> sorted_wrt (\<lambda>a b. cmp a b < 0) ks"

text \<open>The linear scan the binary search implements.\<close>

definition lower_bound_spec :: "('k \<Rightarrow> 'k \<Rightarrow> int) \<Rightarrow> 'k list \<Rightarrow> 'k \<Rightarrow> nat" where
  "lower_bound_spec cmp ks t = length (takeWhile (\<lambda>k. cmp k t < 0) ks)"

definition upper_bound_spec :: "('k \<Rightarrow> 'k \<Rightarrow> int) \<Rightarrow> 'k list \<Rightarrow> 'k \<Rightarrow> nat" where
  "upper_bound_spec cmp ks t = length (takeWhile (\<lambda>k. cmp k t \<le> 0) ks)"

text \<open>The comparison of \<open>TYPE_INT\<close> columns in \<open>ix_compare\<close>, on decoded values.\<close>

definition int_cmp :: "int \<Rightarrow> int \<Rightarrow> int" where
  "int_cmp a b = (if a < b then -1 else if a > b then 1 else 0)"

text \<open>Well-formed leaves and internal nodes.\<close>

definition leaf_ok :: "('k \<Rightarrow> 'k \<Rightarrow> int) \<Rightarrow> 'k ix_node \<Rightarrow> bool" where
  "leaf_ok cmp n \<longleftrightarrow> node_is_leaf n \<and> keys_sorted cmp (node_keys n) \<and>
     length (node_rids n) = length (node_keys n)"

definition internal_ok :: "('k \<Rightarrow> 'k \<Rightarrow> int) \<Rightarrow> 'k ix_node \<Rightarrow> bool" where
  "internal_ok cmp n \<longleftrightarrow> \<not> node_is_leaf n \<and> keys_sorted cmp (node_keys n) \<and>
     length (node_rids n) = Suc (length (node_keys n))"


text \<open>Nodes for the witnesses, with \<open>int\<close> keys compared as \<open>TYPE_INT\<close> columns are.\<close>

definition demo_leaf :: "int ix_node" where
  "demo_leaf = \<lparr>node_is_leaf = True, node_keys = [10, 20, 30], node_rids = [Rid 1 0, Rid 1 1, Rid 1 2]\<rparr>"

definition demo_internal :: "int ix_node" where
  "demo_internal = \<lparr>node_is_leaf = False, node_keys = [20, 40], node_rids = [Rid 5 0, Rid 6 0, Rid 7 0]\<rparr>"

section \<open>Binary search\<close>

lemma takeWhile_length_eq:
  "k \<le> length ks \<Longrightarrow> \<forall>i < k. P (ks ! i) \<Longrightarrow> (k < length ks \<Longrightarrow> \<not> P (ks ! k)) \<Longrightarrow>
     length (takeWhile P ks) = k"
proof (induction ks arbitrary: k)
  case (Cons x xs)
  show ?case
  proof (cases k)
    case 0
    then show ?thesis using Cons.prems by simp
  next
    case (Suc k')
    have "P x" using Cons.prems(2) Suc by auto
    moreover have "length (takeWhile P xs) = k'"
      using Cons.prems Suc by (intro Cons.IH) auto
    ultimately show ?thesis using Suc by simp
  qed
qed simp

lemma bsearch_correct:
  "\<forall>i j. i \<le> j \<longrightarrow> j < length ks \<longrightarrow> P (ks ! j) \<longrightarrow> P (ks ! i) \<Longrightarrow>
    -1 \<le> l \<Longrightarrow> l < r \<Longrightarrow> r \<le> int (length ks) \<Longrightarrow> (0 \<le> l \<longrightarrow> P (ks ! nat l)) \<Longrightarrow>
    (r < int (length ks) \<longrightarrow> \<not> P (ks ! nat r)) \<Longrightarrow> bsearch P ks l r = int (length (takeWhile P ks))"
proof (induction P ks l r rule: bsearch.induct)
  case (1 P ks l r)
  note mono = "1.prems"(1)
  show ?case
  proof (cases "r - l > 1")
    case True
    let ?mid = "l + (r - l) div 2"
    have m: "l < ?mid" "?mid < r" "0 \<le> ?mid" using True "1.prems"(2) by linarith+
    show ?thesis
    proof (cases "P (ks ! nat ?mid)")
      case Pm: True
      have "bsearch P ks ?mid r = int (length (takeWhile P ks))"
        using "1.IH"(1)[OF True refl Pm] m Pm "1.prems" by simp
      then show ?thesis using True Pm by (simp add: Let_def)
    next
      case Pm: False
      have "bsearch P ks l ?mid = int (length (takeWhile P ks))"
        using "1.IH"(2)[OF True refl Pm] m Pm "1.prems" by simp
      then show ?thesis using True Pm by (simp add: Let_def)
    qed
  next
    case False
    then have r: "r = l + 1" using "1.prems"(3) by simp
    have all: "\<forall>i < nat r. P (ks ! i)"
    proof (intro allI impI)
      fix i assume "i < nat r"
      then have il: "i \<le> nat l" and l0: "0 \<le> l" using r "1.prems"(2) by linarith+
      have "int (nat l) < int (length ks)" using l0 r "1.prems"(4) by simp
      then have lt: "nat l < length ks" by (simp only: of_nat_less_iff)
      have "P (ks ! nat l)" using "1.prems"(5) l0 by simp
      then show "P (ks ! i)" using mono[rule_format, OF il lt] by simp
    qed
    have r0: "0 \<le> r" using r "1.prems"(2) by simp
    have "length (takeWhile P ks) = nat r"
    proof (rule takeWhile_length_eq)
      show "nat r \<le> length ks" using "1.prems"(4) r0 by linarith
      show "\<forall>i < nat r. P (ks ! i)" by (rule all)
      show "\<not> P (ks ! nat r)" if "nat r < length ks"
        using that "1.prems"(6) r0 by linarith
    qed
    then show ?thesis using False r0 by simp
  qed
qed

lemma cmp_eq: "cmp_linear cmp \<Longrightarrow> cmp a b = 0 \<longleftrightarrow> a = b"
  by (simp add: cmp_linear_def)

lemma cmp_refl: "cmp_linear cmp \<Longrightarrow> cmp a a = 0"
  by (simp add: cmp_linear_def)

lemma cmp_antisym: "cmp_linear cmp \<Longrightarrow> cmp a b < 0 \<longleftrightarrow> 0 < cmp b a"
  by (simp add: cmp_linear_def)

lemma cmp_trans: "cmp_linear cmp \<Longrightarrow> cmp a b < 0 \<Longrightarrow> cmp b c < 0 \<Longrightarrow> cmp a c < 0"
  unfolding cmp_linear_def by blast

lemma cmp_trans_le: "cmp a c < 0" if "cmp_linear cmp" "cmp a b < 0" "cmp b c \<le> 0"
proof (cases "cmp b c = 0")
  case False
  then have "cmp b c < 0" using that by simp
  with that show ?thesis by (blast intro: cmp_trans)
qed (use that in \<open>simp add: cmp_eq\<close>)

lemma sorted_less: "keys_sorted cmp ks \<Longrightarrow> i < j \<Longrightarrow> j < length ks \<Longrightarrow> cmp (ks ! i) (ks ! j) < 0"
  by (simp add: keys_sorted_def sorted_wrt_iff_nth_less)

lemma lower_mono:
  "cmp_linear cmp \<Longrightarrow> keys_sorted cmp ks \<Longrightarrow>
     \<forall>i j. i \<le> j \<longrightarrow> j < length ks \<longrightarrow> cmp (ks ! j) t < 0 \<longrightarrow> cmp (ks ! i) t < 0"
  by (metis cmp_trans le_neq_implies_less sorted_less)

lemma upper_mono:
  "cmp_linear cmp \<Longrightarrow> keys_sorted cmp ks \<Longrightarrow>
     \<forall>i j. i \<le> j \<longrightarrow> j < length ks \<longrightarrow> cmp (ks ! j) t \<le> 0 \<longrightarrow> cmp (ks ! i) t \<le> 0"
  by (metis cmp_trans_le le_neq_implies_less less_imp_le sorted_less)

lemma lower_bound_eq:
  "cmp_linear cmp \<Longrightarrow> keys_sorted cmp (node_keys n) \<Longrightarrow>
     lower_bound cmp n t = int (lower_bound_spec cmp (node_keys n) t)"
  unfolding lower_bound_def lower_bound_spec_def get_size_def
  by (rule bsearch_correct[OF lower_mono]) simp_all

lemma upper_bound_eq:
  "cmp_linear cmp \<Longrightarrow> keys_sorted cmp (node_keys n) \<Longrightarrow>
     upper_bound cmp n t = int (upper_bound_spec cmp (node_keys n) t)"
  unfolding upper_bound_def upper_bound_spec_def get_size_def
  by (rule bsearch_correct[OF upper_mono]) simp_all

lemma lb_below:
  "i < lower_bound_spec cmp ks t \<Longrightarrow> cmp (ks ! i) t < 0"
  unfolding lower_bound_spec_def by (metis nth_mem set_takeWhileD takeWhile_nth)

lemma lb_le: "lower_bound_spec cmp ks t \<le> length ks"
  by (simp add: lower_bound_spec_def length_takeWhile_le)

lemma lb_at: "lower_bound_spec cmp ks t < length ks \<Longrightarrow> \<not> cmp (ks ! lower_bound_spec cmp ks t) t < 0"
  unfolding lower_bound_spec_def by (rule nth_length_takeWhile)

lemma sorted_distinct: "cmp_linear cmp \<Longrightarrow> keys_sorted cmp ks \<Longrightarrow> distinct ks"
  unfolding distinct_conv_nth
  by (metis cmp_eq less_irrefl nat_neq_iff sorted_less)

lemma lb_notin:
  assumes lin: "cmp_linear cmp" and srt: "keys_sorted cmp ks"
    and miss: "lower_bound_spec cmp ks t = length ks \<or> cmp (ks ! lower_bound_spec cmp ks t) t \<noteq> 0"
  shows "t \<notin> set ks"
proof
  assume "t \<in> set ks"
  then obtain i where i: "i < length ks" "ks ! i = t" by (auto simp: in_set_conv_nth)
  let ?p = "lower_bound_spec cmp ks t"
  have "\<not> i < ?p" using lb_below[of i cmp ks t] i cmp_refl[OF lin] by auto
  then have ip: "?p \<le> i" by simp
  then have pl: "?p < length ks" using i by simp
  have c: "0 < cmp (ks ! ?p) t" using lb_at[OF pl] miss pl by simp
  show False
  proof (cases "?p = i")
    case True
    then show False using c i cmp_refl[OF lin] by simp
  next
    case False
    then have "cmp (ks ! ?p) t < 0" using sorted_less[OF srt, of ?p i] ip i by simp
    then show False using c by simp
  qed
qed

lemma lb_found:
  "cmp_linear cmp \<Longrightarrow> lower_bound_spec cmp ks t < length ks \<Longrightarrow> cmp (ks ! lower_bound_spec cmp ks t) t = 0 \<Longrightarrow>
     ks ! lower_bound_spec cmp ks t = t"
  by (simp add: cmp_eq)

lemma leaf_lookup_map_of:
  assumes lin: "cmp_linear cmp" and srt: "keys_sorted cmp (node_keys n)" and leaf: "node_is_leaf n"
    and len: "length (node_rids n) = length (node_keys n)"
  shows "leaf_lookup cmp n key = Inr (map_of (zip (node_keys n) (node_rids n)) key)"
proof -
  let ?ks = "node_keys n" and ?p = "lower_bound_spec cmp (node_keys n) key"
  have lb: "lower_bound cmp n key = int ?p" by (rule lower_bound_eq[OF lin srt])
  show ?thesis
  proof (cases "?p = length ?ks \<or> cmp (?ks ! ?p) key \<noteq> 0")
    case True
    then have "key \<notin> set ?ks" by (rule lb_notin[OF lin srt])
    then have "map_of (zip ?ks (node_rids n)) key = None" using len by (simp add: map_of_zip_is_None)
    then show ?thesis using True leaf lb by (auto simp: leaf_lookup_def get_size_def Let_def)
  next
    case False
    then have pl: "?p < length ?ks" using lb_le[of cmp ?ks key] by simp
    have k: "?ks ! ?p = key" using lb_found[OF lin pl] False by simp
    have "map_of (zip ?ks (node_rids n)) key = Some (node_rids n ! ?p)"
      using map_of_zip_nth[of ?ks "node_rids n" ?p] len sorted_distinct[OF lin srt] pl k by simp
    then show ?thesis using False leaf lb pl by (simp add: leaf_lookup_def get_size_def Let_def)
  qed
qed

lemma remove_insert_at: "i \<le> length xs \<Longrightarrow> remove_at i (insert_at i x xs) = xs"
  by (simp add: remove_at_def insert_at_def)

lemma length_insert_at: "i \<le> length xs \<Longrightarrow> length (insert_at i x xs) = Suc (length xs)"
  by (simp add: insert_at_def)

lemma lb_take:
  assumes "x \<in> set (take (lower_bound_spec cmp ks t) ks)"
  shows "cmp x t < 0"
proof -
  obtain i where i: "i < length (take (lower_bound_spec cmp ks t) ks)" "take (lower_bound_spec cmp ks t) ks ! i = x"
    using assms by (auto simp: in_set_conv_nth)
  then have "i < lower_bound_spec cmp ks t" "ks ! i = x" by simp_all
  then show ?thesis using lb_below[of i cmp ks t] by simp
qed

lemma lb_drop:
  assumes lin: "cmp_linear cmp" and srt: "keys_sorted cmp ks" and miss: "t \<notin> set ks"
    and y: "y \<in> set (drop (lower_bound_spec cmp ks t) ks)"
  shows "cmp t y < 0"
proof -
  let ?p = "lower_bound_spec cmp ks t"
  obtain j where j: "j < length ks - ?p" "y = ks ! (?p + j)" using y by (auto simp: in_set_conv_nth)
  have pl: "?p < length ks" using j by simp
  have "ks ! ?p \<noteq> t" using miss nth_mem[OF pl] by auto
  then have "cmp (ks ! ?p) t \<noteq> 0" using cmp_eq[OF lin] by simp
  then have "0 < cmp (ks ! ?p) t" using lb_at[OF pl] by simp
  then have tp: "cmp t (ks ! ?p) < 0" using cmp_antisym[OF lin] by simp
  show ?thesis
  proof (cases j)
    case 0
    then show ?thesis using tp j by simp
  next
    case (Suc j')
    then have "cmp (ks ! ?p) (ks ! (?p + j)) < 0" using sorted_less[OF srt] j by simp
    then show ?thesis using tp j cmp_trans[OF lin] by blast
  qed
qed

lemma insert_sorted:
  assumes lin: "cmp_linear cmp" and srt: "keys_sorted cmp ks" and miss: "t \<notin> set ks"
  shows "keys_sorted cmp (insert_at (lower_bound_spec cmp ks t) t ks)"
proof -
  let ?p = "lower_bound_spec cmp ks t"
  have ks: "ks = take ?p ks @ drop ?p ks" by simp
  have st: "sorted_wrt (\<lambda>a b. cmp a b < 0) (take ?p ks)" "sorted_wrt (\<lambda>a b. cmp a b < 0) (drop ?p ks)"
    and cross: "\<forall>x \<in> set (take ?p ks). \<forall>y \<in> set (drop ?p ks). cmp x y < 0"
    using srt sorted_wrt_append[of "\<lambda>a b. cmp a b < 0" "take ?p ks" "drop ?p ks"]
    unfolding keys_sorted_def by simp_all
  have "\<forall>x \<in> set (take ?p ks). cmp x t < 0" using lb_take[of _ cmp ks t] by blast
  moreover have "\<forall>y \<in> set (drop ?p ks). cmp t y < 0" using lb_drop[OF lin srt miss] by blast
  ultimately show ?thesis using st cross
    unfolding keys_sorted_def insert_at_def by (auto simp: sorted_wrt_append)
qed

lemma lb_insert:
  assumes lin: "cmp_linear cmp"
  shows "lower_bound_spec cmp (insert_at (lower_bound_spec cmp ks t) t ks) t = lower_bound_spec cmp ks t"
proof -
  let ?p = "lower_bound_spec cmp ks t"
  have tw: "takeWhile (\<lambda>k. cmp k t < 0) (take ?p ks @ t # drop ?p ks) = take ?p ks"
    using lb_take[of _ cmp ks t] cmp_refl[OF lin, of t] by (subst takeWhile_append2) auto
  have "length (take ?p ks) = ?p" using lb_le[of cmp ks t] by simp
  then show ?thesis using tw unfolding insert_at_def lower_bound_spec_def by simp
qed

lemma node_insert_fresh:
  assumes lin: "cmp_linear cmp" and srt: "keys_sorted cmp (node_keys n)" and miss: "key \<notin> set (node_keys n)"
  shows "node_insert cmp n key v =
    Inr (get_size n + 1, n\<lparr>node_keys := insert_at (lower_bound_spec cmp (node_keys n) key) key (node_keys n),
      node_rids := (if node_is_leaf n then insert_at (lower_bound_spec cmp (node_keys n) key) v (node_rids n)
                    else insert_at (lower_bound_spec cmp (node_keys n) key + 1) v (node_rids n))\<rparr>)"
proof -
  let ?p = "lower_bound_spec cmp (node_keys n) key"
  have lb: "lower_bound cmp n key = int ?p" by (rule lower_bound_eq[OF lin srt])
  have pl: "?p \<le> length (node_keys n)" by (rule lb_le)
  have nd: "\<not> (int ?p \<noteq> get_size n \<and> cmp key (node_keys n ! ?p) = 0)"
  proof
    assume a: "int ?p \<noteq> get_size n \<and> cmp key (node_keys n ! ?p) = 0"
    then have "?p < length (node_keys n)" using pl by (auto simp: get_size_def)
    then show False using a miss cmp_eq[OF lin] nth_mem by metis
  qed
  show ?thesis using nd lb pl by (simp add: node_insert_def Let_def get_size_def length_insert_at)
qed

lemma zip_insert_at:
  "length ks = length rs \<Longrightarrow> zip (insert_at p k ks) (insert_at p v rs) = insert_at p (k, v) (zip ks rs)"
  by (simp add: insert_at_def zip_append take_zip drop_zip)

lemma map_of_insert_at:
  assumes "k \<notin> fst ` set xs"
  shows "map_of (insert_at p (k, v) xs) = (map_of xs)(k \<mapsto> v)"
proof
  fix x
  have nt: "k \<notin> fst ` set (take p xs)" using assms set_take_subset[of p xs] by blast
  show "map_of (insert_at p (k, v) xs) x = ((map_of xs)(k \<mapsto> v)) x"
  proof (cases "x = k")
    case True
    have "map_of (take p xs) k = None" using nt by (simp add: map_of_eq_None_iff)
    then show ?thesis using True by (simp add: insert_at_def map_of_append map_add_def)
  next
    case False
    have "map_of xs x = (map_of (drop p xs) ++ map_of (take p xs)) x"
      by (metis append_take_drop_id map_of_append)
    then show ?thesis using False by (simp add: insert_at_def map_of_append map_add_def split: option.split)
  qed
qed

lemma ub_from_lb:
  assumes lin: "cmp_linear cmp" and srt: "keys_sorted cmp ks"
  shows "upper_bound_spec cmp ks t =
    (if lower_bound_spec cmp ks t < length ks \<and> ks ! lower_bound_spec cmp ks t = t
     then Suc (lower_bound_spec cmp ks t) else lower_bound_spec cmp ks t)"
proof -
  let ?p = "lower_bound_spec cmp ks t"
  have pl: "?p \<le> length ks" by (rule lb_le)
  have below: "\<forall>i < ?p. cmp (ks ! i) t \<le> 0" using lb_below[of _ cmp ks t] by fastforce
  show ?thesis
  proof (cases "?p < length ks \<and> ks ! ?p = t")
    case True
    have all: "\<forall>i < Suc ?p. cmp (ks ! i) t \<le> 0"
      using below True cmp_refl[OF lin, of t] less_Suc_eq by auto
    have "\<not> cmp (ks ! Suc ?p) t \<le> 0" if "Suc ?p < length ks"
    proof -
      have "cmp (ks ! ?p) (ks ! Suc ?p) < 0" using sorted_less[OF srt, of ?p "Suc ?p"] that by simp
      then show ?thesis using True cmp_antisym[OF lin] by auto
    qed
    then have "upper_bound_spec cmp ks t = Suc ?p"
      unfolding upper_bound_spec_def using True all by (intro takeWhile_length_eq) auto
    then show ?thesis using True by simp
  next
    case False
    have "\<not> cmp (ks ! ?p) t \<le> 0" if "?p < length ks"
    proof -
      have "ks ! ?p \<noteq> t" using False that by simp
      then have "cmp (ks ! ?p) t \<noteq> 0" using cmp_eq[OF lin] by simp
      then show ?thesis using lb_at[OF that] by simp
    qed
    then have "upper_bound_spec cmp ks t = ?p"
      unfolding upper_bound_spec_def using pl below by (intro takeWhile_length_eq) auto
    then show ?thesis using False by simp
  qed
qed

lemma sorted_take_drop:
  "keys_sorted cmp ks \<Longrightarrow> keys_sorted cmp (take i ks) \<and> keys_sorted cmp (drop i ks)"
  unfolding keys_sorted_def by (metis append_take_drop_id sorted_wrt_append)


lemma int_cmp_linear: "cmp_linear int_cmp"
  unfolding cmp_linear_def int_cmp_def by auto

lemma demo_leaf_ok: "leaf_ok int_cmp demo_leaf"
  by (simp add: leaf_ok_def demo_leaf_def keys_sorted_def int_cmp_def)

lemma demo_internal_ok: "internal_ok int_cmp demo_internal"
  by (simp add: internal_ok_def demo_internal_def keys_sorted_def int_cmp_def)

lemma demo_insert_25:
  "node_insert int_cmp demo_leaf 25 (Rid 2 0) =
     Inr (4, demo_leaf\<lparr>node_keys := [10, 20, 25, 30], node_rids := [Rid 1 0, Rid 1 1, Rid 2 0, Rid 1 2]\<rparr>)"
proof -
  have "keys_sorted int_cmp (node_keys demo_leaf)" using demo_leaf_ok by (simp add: leaf_ok_def)
  moreover have "(25::int) \<notin> set (node_keys demo_leaf)" by (simp add: demo_leaf_def)
  ultimately show ?thesis using node_insert_fresh[OF int_cmp_linear, of demo_leaf 25 "Rid 2 0"]
    by (simp add: demo_leaf_def lower_bound_spec_def int_cmp_def insert_at_def get_size_def)
qed

section \<open>Properties\<close>

text \<open>C14. On a node with strictly increasing keys, the binary searches \<open>lower_bound\<close>
  and \<open>upper_bound\<close> return the length of the prefix of keys below the target (at
  or below it, for \<open>upper_bound\<close>): they agree with a linear scan.\<close>

theorem bound_search_is_linear_scan:
  "cmp_linear cmp \<Longrightarrow> keys_sorted cmp (node_keys n) \<Longrightarrow>
     lower_bound cmp n t = int (lower_bound_spec cmp (node_keys n) t) \<and>
     upper_bound cmp n t = int (upper_bound_spec cmp (node_keys n) t)"
  by (simp add: lower_bound_eq upper_bound_eq)

theorem bound_search_is_linear_scan_witness:
  "lower_bound int_cmp demo_leaf 25 = 2 \<and> upper_bound int_cmp demo_leaf 20 = 2"
proof -
  have s: "keys_sorted int_cmp (node_keys demo_leaf)" using demo_leaf_ok by (simp add: leaf_ok_def)
  show ?thesis
    using bound_search_is_linear_scan[OF int_cmp_linear s, of 25] bound_search_is_linear_scan[OF int_cmp_linear s, of 20]
    by (simp add: demo_leaf_def lower_bound_spec_def upper_bound_spec_def int_cmp_def)
qed

text \<open>C15. \<open>leaf_lookup\<close> on a well-formed leaf returns the rid paired with the key,
  and nothing for a key the leaf does not hold.\<close>

theorem leaf_lookup_finds_pair:
  "cmp_linear cmp \<Longrightarrow> leaf_ok cmp n \<Longrightarrow> leaf_lookup cmp n key = Inr (map_of (zip (node_keys n) (node_rids n)) key)"
  by (rule leaf_lookup_map_of) (simp_all add: leaf_ok_def)

theorem leaf_lookup_finds_pair_witness:
  "leaf_lookup int_cmp demo_leaf 20 = Inr (Some (Rid 1 1)) \<and> leaf_lookup int_cmp demo_leaf 25 = Inr None"
  using leaf_lookup_finds_pair[OF int_cmp_linear demo_leaf_ok, of 20]
    leaf_lookup_finds_pair[OF int_cmp_linear demo_leaf_ok, of 25]
  by (simp add: demo_leaf_def)

text \<open>C16. Inserting a fresh key into a well-formed leaf keeps it well formed, returns
  the new size, and maps the key to the inserted rid, every other key as before.\<close>

theorem leaf_insert_then_lookup:
  assumes lin: "cmp_linear cmp" and ok: "leaf_ok cmp n" and miss: "key \<notin> set (node_keys n)"
    and ins: "node_insert cmp n key v = Inr (sz, n')"
  shows "leaf_ok cmp n' \<and> sz = get_size n + 1 \<and>
    map_of (zip (node_keys n') (node_rids n')) = (map_of (zip (node_keys n) (node_rids n)))(key \<mapsto> v)"
proof -
  let ?p = "lower_bound_spec cmp (node_keys n) key"
  have srt: "keys_sorted cmp (node_keys n)" and leaf: "node_is_leaf n"
    and len: "length (node_rids n) = length (node_keys n)" using ok by (simp_all add: leaf_ok_def)
  have n': "n' = n\<lparr>node_keys := insert_at ?p key (node_keys n), node_rids := insert_at ?p v (node_rids n)\<rparr>"
    and sz: "sz = get_size n + 1"
    using node_insert_fresh[OF lin srt miss, of v] ins leaf by simp_all
  have pl: "?p \<le> length (node_keys n)" by (rule lb_le)
  have "leaf_ok cmp n'"
    using insert_sorted[OF lin srt miss] leaf len pl by (simp add: n' leaf_ok_def length_insert_at)
  moreover have "key \<notin> fst ` set (zip (node_keys n) (node_rids n))"
    using miss by (auto dest: set_zip_leftD)
  ultimately show ?thesis
    using sz len by (simp add: n' zip_insert_at map_of_insert_at)
qed

theorem leaf_insert_then_lookup_witness:
  "map_of (zip [10, 20, 25, 30] [Rid 1 0, Rid 1 1, Rid 2 0, Rid 1 2]) (25::int) = Some (Rid 2 0)"
  using leaf_insert_then_lookup[OF int_cmp_linear demo_leaf_ok _ demo_insert_25]
  by (simp add: demo_leaf_def)

text \<open>Removing a key just inserted into a node (leaf or internal) gives back the
  node as it was, and its size.\<close>

theorem remove_after_insert:
  assumes lin: "cmp_linear cmp" and srt: "keys_sorted cmp (node_keys n)" and miss: "key \<notin> set (node_keys n)"
    and rlen: "length (node_rids n) = (if node_is_leaf n then length (node_keys n) else Suc (length (node_keys n)))"
    and ins: "node_insert cmp n key v = Inr (sz, n')"
  shows "node_remove cmp n' key = Inr (get_size n, n)"
proof -
  let ?p = "lower_bound_spec cmp (node_keys n) key"
  let ?ks' = "insert_at ?p key (node_keys n)"
  have pl: "?p \<le> length (node_keys n)" by (rule lb_le)
  have n': "n' = n\<lparr>node_keys := ?ks', node_rids := (if node_is_leaf n then insert_at ?p v (node_rids n)
                    else insert_at (?p + 1) v (node_rids n))\<rparr>"
    using node_insert_fresh[OF lin srt miss, of v] ins by simp
  have srt': "keys_sorted cmp (node_keys n')" using insert_sorted[OF lin srt miss] by (simp add: n')
  have lb': "lower_bound cmp n' key = int ?p"
    using lower_bound_eq[OF lin srt'] lb_insert[OF lin, of "node_keys n" key] by (simp add: n')
  have at: "?ks' ! ?p = key" using pl by (simp add: insert_at_def nth_append)
  have sz': "get_size n' = get_size n + 1" using pl by (simp add: n' get_size_def length_insert_at)
  have ep: "erase_pair (int ?p) n' = n"
    using pl rlen sz' by (simp add: erase_pair_def n' get_size_def remove_insert_at)
  show ?thesis using lb' at cmp_refl[OF lin, of key] sz' ep pl
    by (simp add: node_remove_def Let_def n' get_size_def)
qed

theorem remove_after_insert_witness:
  "node_remove int_cmp (demo_leaf\<lparr>node_keys := [10, 20, 25, 30], node_rids := [Rid 1 0, Rid 1 1, Rid 2 0, Rid 1 2]\<rparr>) 25 =
     Inr (3, demo_leaf)"
proof -
  have s: "keys_sorted int_cmp (node_keys demo_leaf)" using demo_leaf_ok by (simp add: leaf_ok_def)
  show ?thesis using remove_after_insert[OF int_cmp_linear s _ _ demo_insert_25]
    by (simp add: demo_leaf_def get_size_def)
qed

text \<open>Inserting a key the node already holds throws
  \<open>IndexInsertDuplicatedError\<close>.\<close>

theorem insert_duplicate_rejected:
  assumes lin: "cmp_linear cmp" and srt: "keys_sorted cmp (node_keys n)" and hit: "key \<in> set (node_keys n)"
  shows "node_insert cmp n key v = Inl IndexInsertDuplicatedError"
proof -
  let ?p = "lower_bound_spec cmp (node_keys n) key"
  have lb: "lower_bound cmp n key = int ?p" by (rule lower_bound_eq[OF lin srt])
  have found: "?p < length (node_keys n) \<and> cmp (node_keys n ! ?p) key = 0"
    using lb_notin[OF lin srt] hit lb_le[of cmp "node_keys n" key] by fastforce
  then have "cmp key (node_keys n ! ?p) = 0" using cmp_eq[OF lin] by metis
  then show ?thesis using found lb by (simp add: node_insert_def get_size_def)
qed

theorem insert_duplicate_rejected_witness:
  "node_insert int_cmp demo_leaf 20 (Rid 9 9) = Inl IndexInsertDuplicatedError"
proof -
  have s: "keys_sorted int_cmp (node_keys demo_leaf)" using demo_leaf_ok by (simp add: leaf_ok_def)
  show ?thesis using insert_duplicate_rejected[OF int_cmp_linear s, of 20] by (simp add: demo_leaf_def)
qed

text \<open>C19. \<open>internal_lookup\<close> on a well-formed internal node returns the child at the
  number of keys at or below the target: child \<open>i\<close> covers \<open>[keys[i-1], keys[i])\<close>.\<close>

theorem internal_lookup_picks_child:
  assumes lin: "cmp_linear cmp" and ok: "internal_ok cmp n"
  shows "internal_lookup cmp n key = Inr (rid_page_no (node_rids n ! upper_bound_spec cmp (node_keys n) key))"
proof -
  let ?ks = "node_keys n" and ?p = "lower_bound_spec cmp (node_keys n) key"
  have srt: "keys_sorted cmp ?ks" using ok by (simp add: internal_ok_def)
  have lb: "lower_bound cmp n key = int ?p" by (rule lower_bound_eq[OF lin srt])
  have pl: "?p \<le> length ?ks" by (rule lb_le)
  note ub = ub_from_lb[OF lin srt, of key]
  show ?thesis
  proof (cases "?p = length ?ks")
    case True
    then show ?thesis using lb ub by (simp add: internal_lookup_def get_size_def)
  next
    case False
    then have plt: "?p < length ?ks" using pl by simp
    show ?thesis
    proof (cases "?ks ! ?p = key")
      case True
      then show ?thesis using lb ub plt cmp_refl[OF lin, of key]
        by (simp add: internal_lookup_def get_size_def Let_def nat_add_distrib)
    next
      case ne: False
      have "cmp (?ks ! ?p) key \<noteq> 0" using ne cmp_eq[OF lin] by simp
      then have "0 < cmp (?ks ! ?p) key" using lb_at[OF plt] by simp
      then have "cmp key (?ks ! ?p) < 0" using cmp_antisym[OF lin] by simp
      then show ?thesis using lb ub plt ne by (simp add: internal_lookup_def get_size_def Let_def)
    qed
  qed
qed

theorem internal_lookup_picks_child_witness:
  "internal_lookup int_cmp demo_internal 20 = Inr 6 \<and> internal_lookup int_cmp demo_internal 19 = Inr 5"
  using internal_lookup_picks_child[OF int_cmp_linear demo_internal_ok, of 20]
    internal_lookup_picks_child[OF int_cmp_linear demo_internal_ok, of 19]
  by (simp add: demo_internal_def upper_bound_spec_def int_cmp_def)

text \<open>C20. Splitting a full leaf (\<open>btree_order_ + 1\<close> keys) gives two well-formed leaves
  whose keys and rids, concatenated, are the original ones, the right one holding
  half of them.\<close>

theorem leaf_split_halves:
  assumes ok: "leaf_ok cmp n" and sz: "length (node_keys n) = Suc order" and o: "0 < order"
  shows "\<exists>a b. ix_split order n = Inr (a, b) \<and> leaf_ok cmp a \<and> leaf_ok cmp b \<and>
     node_keys a @ node_keys b = node_keys n \<and> node_rids a @ node_rids b = node_rids n \<and>
     length (node_keys b) = Suc order div 2"
proof -
  have leaf: "node_is_leaf n" and srt: "keys_sorted cmp (node_keys n)"
    and len: "length (node_rids n) = length (node_keys n)" using ok by (simp_all add: leaf_ok_def)
  let ?V = "int (Suc order)"
  let ?r = "?V div 2" and ?l = "?V - ?V div 2"
  have nv: "get_num_vals n = ?V" using leaf sz by (simp add: get_num_vals_def get_size_def)
  have rle: "?r \<le> int order" using o by linarith
  have r0: "0 \<le> ?r" by simp
  have lr: "nat ?l + nat ?r = Suc order" by linarith
  let ?fresh = "\<lparr>node_is_leaf = True, node_keys = [], node_rids = []\<rparr> :: 'a ix_node"
  let ?b = "?fresh\<lparr>node_keys := take (nat ?r) (drop (nat ?l) (node_keys n)),
                     node_rids := take (nat ?r) (drop (nat ?l) (node_rids n))\<rparr>"
  have ip: "insert_pairs order 0 0 (drop (nat ?l) (node_keys n)) (drop (nat ?l) (node_rids n)) ?r ?fresh = Inr ?b"
    using rle by (simp add: insert_pairs_def get_size_def get_num_vals_def get_max_size_def)
  let ?a = "n\<lparr>node_keys := take (nat ?l) (node_keys n), node_rids := take (nat ?l) (node_rids n)\<rparr>"
  have sp: "ix_split order n = Inr (?a, ?b)"
    using ip leaf nv by (simp add: ix_split_def Let_def)
  have dk: "take (nat ?r) (drop (nat ?l) (node_keys n)) = drop (nat ?l) (node_keys n)"
    using sz lr by simp
  have dr: "take (nat ?r) (drop (nat ?l) (node_rids n)) = drop (nat ?l) (node_rids n)"
    using sz len lr by simp
  show ?thesis
  proof (intro exI conjI)
    show "ix_split order n = Inr (?a, ?b)" by (rule sp)
    show "leaf_ok cmp ?a" using leaf len sorted_take_drop[OF srt] by (simp add: leaf_ok_def)
    show "leaf_ok cmp ?b" using len sorted_take_drop[OF srt] dk dr by (simp add: leaf_ok_def)
    show "node_keys ?a @ node_keys ?b = node_keys n" using dk by simp
    show "node_rids ?a @ node_rids ?b = node_rids n" using dr by simp
    show "length (node_keys ?b) = Suc order div 2" using dk sz lr by simp
  qed
qed

theorem leaf_split_halves_witness:
  "\<exists>a b. ix_split 2 demo_leaf = Inr (a, b) \<and> node_keys a @ node_keys b = [10, 20, 30]"
  using leaf_split_halves[OF demo_leaf_ok, of 2] by (auto simp: demo_leaf_def)

text \<open>C21. Splitting an internal node, then moving the right node's first key up as
  \<open>insert_into_parent\<close> does, gives two well-formed internal nodes whose keys around
  the separator, and whose child pointers, are the original ones.\<close>

theorem internal_split_separator:
  assumes ok: "internal_ok cmp n" and ne: "node_keys n \<noteq> []"
    and cap: "int (Suc (length (node_keys n))) div 2 \<le> int order"
  shows "\<exists>a b. ix_split order n = Inr (a, b) \<and> internal_ok cmp a \<and> internal_ok cmp (shift_first_key b) \<and>
     node_keys a @ hd (node_keys b) # node_keys (shift_first_key b) = node_keys n \<and>
     node_rids a @ node_rids (shift_first_key b) = node_rids n"
proof -
  let ?S = "length (node_keys n)"
  have nl: "\<not> node_is_leaf n" and srt: "keys_sorted cmp (node_keys n)"
    and len: "length (node_rids n) = Suc ?S" using ok by (simp_all add: internal_ok_def)
  let ?V = "int (Suc ?S)"
  let ?r = "?V div 2" and ?l = "?V - ?V div 2"
  have nv: "get_num_vals n = ?V" and gs: "get_size n = int ?S"
    using nl by (simp_all add: get_num_vals_def get_size_def)
  have S1: "1 \<le> ?S" using ne by (cases "node_keys n") auto
  have r1: "1 \<le> ?r" using S1 by linarith
  have sr: "nat (int ?S - ?r) = nat ?l - 1" and l1: "1 \<le> nat ?l" using S1 by linarith+
  have lr: "nat ?l + nat ?r = Suc ?S" by linarith
  let ?fresh = "\<lparr>node_is_leaf = False, node_keys = [], node_rids = []\<rparr> :: 'a ix_node"
  let ?b = "?fresh\<lparr>node_keys := take (nat ?r) (drop (nat ?l - 1) (node_keys n)),
                     node_rids := take (nat ?r) (drop (nat ?l) (node_rids n))\<rparr>"
  have ip: "insert_pairs order 0 0 (drop (nat ?l - 1) (node_keys n)) (drop (nat ?l) (node_rids n)) ?r ?fresh = Inr ?b"
    using cap by (simp add: insert_pairs_def get_size_def get_num_vals_def get_max_size_def)
  let ?a = "n\<lparr>node_keys := take (nat ?l - 1) (node_keys n), node_rids := take (nat ?l) (node_rids n)\<rparr>"
  have sp0: "ix_split order n =
      (case insert_pairs order 0 0 (drop (nat (int ?S - ?r)) (node_keys n)) (drop (nat ?l) (node_rids n)) ?r ?fresh of
         Inl e \<Rightarrow> Inl e
       | Inr nn \<Rightarrow> Inr (n\<lparr>node_keys := take (nat (?l - 1)) (node_keys n), node_rids := take (nat ?l) (node_rids n)\<rparr>, nn))"
    unfolding ix_split_def Let_def nv gs using nl by simp
  have l1': "nat (?l - 1) = nat ?l - 1" using l1 by linarith
  have sp: "ix_split order n = Inr (?a, ?b)"
    unfolding sp0 sr l1' ip by simp
  have dk: "take (nat ?r) (drop (nat ?l - 1) (node_keys n)) = drop (nat ?l - 1) (node_keys n)"
    using lr by simp
  have dr: "take (nat ?r) (drop (nat ?l) (node_rids n)) = drop (nat ?l) (node_rids n)"
    using len lr by simp
  have lk: "nat ?l - 1 < ?S" using lr r1 by linarith
  have "drop (nat ?l - 1) (node_keys n) = node_keys n ! (nat ?l - 1) # drop (Suc (nat ?l - 1)) (node_keys n)"
    by (rule Cons_nth_drop_Suc[symmetric]) (rule lk)
  then have hd_drop: "drop (nat ?l - 1) (node_keys n) = node_keys n ! (nat ?l - 1) # drop (nat ?l) (node_keys n)"
    using l1 by simp
  obtain b where bdef: "b = ?b" by simp
  have kb: "node_keys b = drop (nat ?l - 1) (node_keys n)" using dk by (simp add: bdef)
  have rb: "node_rids b = drop (nat ?l) (node_rids n)" using dr by (simp add: bdef)
  have lb: "\<not> node_is_leaf b" by (simp add: bdef)
  have sbk: "node_keys (shift_first_key b) = drop (nat ?l) (node_keys n)"
    using lb unfolding shift_first_key_def kb hd_drop by simp
  have sbr: "node_rids (shift_first_key b) = drop (nat ?l) (node_rids n)"
    and sbl: "\<not> node_is_leaf (shift_first_key b)" using lb rb by (simp_all add: shift_first_key_def)
  have hb: "hd (node_keys b) = node_keys n ! (nat ?l - 1)" unfolding kb hd_drop by simp
  show ?thesis
  proof (intro exI conjI)
    show "ix_split order n = Inr (?a, b)" using sp bdef by simp
    show "internal_ok cmp ?a" using nl len sorted_take_drop[OF srt] lk by (simp add: internal_ok_def)
    show "internal_ok cmp (shift_first_key b)"
    proof -
      have "nat ?l \<le> ?S" using lk l1 by linarith
      then show ?thesis using sbk sbr sbl len sorted_take_drop[OF srt] by (simp add: internal_ok_def Suc_diff_le)
    qed
    have "take (nat ?l - 1) (node_keys n) @ drop (nat ?l - 1) (node_keys n) = node_keys n" by simp
    then show "node_keys ?a @ hd (node_keys b) # node_keys (shift_first_key b) = node_keys n"
      unfolding sbk hb hd_drop by simp
    show "node_rids ?a @ node_rids (shift_first_key b) = node_rids n" using sbr by simp
  qed
qed

theorem internal_split_separator_witness:
  "\<exists>a b. ix_split 2 demo_internal = Inr (a, b) \<and>
     node_rids a @ node_rids (shift_first_key b) = [Rid 5 0, Rid 6 0, Rid 7 0]"
  using internal_split_separator[OF demo_internal_ok, of 2] by (auto simp: demo_internal_def)

text \<open>C22. \<open>insert_pairs\<close> rejects a leaf filled to \<open>get_max_size()\<close>: its first
  check allows a leaf \<open>btree_order_ + 1\<close> keys, but the \<open>else if\<close> that follows applies
  to leaves too and caps every node at \<open>btree_order_\<close> keys.\<close>

theorem insert_pairs_caps_leaves:
  "node_is_leaf n \<Longrightarrow> 0 \<le> kp \<Longrightarrow> kp \<le> get_size n \<Longrightarrow> 0 \<le> rp \<Longrightarrow> rp \<le> get_num_vals n \<Longrightarrow>
     get_size n + cnt = get_max_size order \<Longrightarrow> insert_pairs order kp rp ks rs cnt n = Inl InternalError"
  by (simp add: insert_pairs_def)

theorem insert_pairs_caps_leaves_witness:
  "insert_pairs 3 0 0 [1::int, 2, 3, 4] [Rid 0 0, Rid 0 1, Rid 0 2, Rid 0 3] 4
     \<lparr>node_is_leaf = True, node_keys = [], node_rids = []\<rparr> = Inl InternalError"
  using insert_pairs_caps_leaves[of "\<lparr>node_is_leaf = True, node_keys = [], node_rids = []\<rparr>" 0 0 4 3
      "[1::int, 2, 3, 4]" "[Rid 0 0, Rid 0 1, Rid 0 2, Rid 0 3]"]
  by (simp add: get_size_def get_num_vals_def get_max_size_def)

end
