(* ===== verification/Record_Heap.thy ===== *)
theory Record_Heap
  imports Lock_Manager Log_Manager
begin

text \<open>
  The record heap file of \<open>record/rm_file_handle.cpp\<close> and its scan,
  \<open>record/rm_scan.cpp\<close>. A file is its header (\<open>record_size\<close>,
  \<open>num_records_per_page\<close>, \<open>num_pages\<close>), its data pages from page 1 on (page 0
  holds the header), and the hint set \<open>free_pageno_set\<close> of pages with a free slot.
  A page is its header count \<open>num_records\<close>, its occupancy bitmap and its slot array.
  The transaction context of the methods (\<open>Context\<close>: lock manager, log manager and
  the transaction's write set) is an optional record threaded through the calls; an
  exception or a failed \<open>assert\<close> is the \<open>Inl\<close> branch of the result, returned with the
  state reached when it was raised.
\<close>

section \<open>Bitmaps\<close>

text \<open>\<open>Bitmap\<close> (\<open>common/bitmap.h\<close>, not among the sources): one bit per slot.
  \<open>first_bit\<close> and \<open>next_bit\<close> return \<open>max_n\<close> when no bit qualifies.\<close>

definition is_set :: "bool list \<Rightarrow> int \<Rightarrow> bool" where
  "is_set bm i = bm ! nat i"

definition bm_set :: "bool list \<Rightarrow> int \<Rightarrow> bool list" where
  "bm_set bm i = bm[nat i := True]"

definition bm_reset :: "bool list \<Rightarrow> int \<Rightarrow> bool list" where
  "bm_reset bm i = bm[nat i := False]"

definition first_bit :: "bool \<Rightarrow> bool list \<Rightarrow> int \<Rightarrow> int" where
  "first_bit v bm max_n = int (length (takeWhile (\<lambda>b. b \<noteq> v) (take (nat max_n) bm)))"

function next_bit :: "bool \<Rightarrow> bool list \<Rightarrow> int \<Rightarrow> int \<Rightarrow> int" where
  "next_bit v bm max_n cur =
     (if cur + 1 < max_n then
        (if bm ! nat (cur + 1) = v then cur + 1 else next_bit v bm max_n (cur + 1))
      else max_n)"
  by pat_completeness auto
termination
  by (relation "measure (\<lambda>(v, bm, max_n, cur). nat (max_n - cur))") auto

declare next_bit.simps [simp del]

section \<open>Pages, files and contexts\<close>

record rm_page =
  num_records :: int
  bitmap :: "bool list"
  slots :: "rm_record list"

record rm_file =
  record_size :: nat
  num_records_per_page :: int
  num_pages :: int
  fd :: file_fd
  file_name :: table_name
  pages :: "page_no \<rightharpoonup> rm_page"
  free_pageno_set :: "page_no list"

text \<open>\<open>WriteRecord\<close> of \<open>transaction/txn_defs.h\<close> (not among the sources): the kind of
  write, the table, the rid and the record image that undoes it.\<close>

datatype WType = INSERT_TUPLE | DELETE_TUPLE | UPDATE_TUPLE

record write_record =
  wr_type :: WType
  wr_tab_name :: table_name
  wr_rid :: Rid
  wr_record :: rm_record

text \<open>\<open>Context\<close>: the transaction, the lock manager's table, the log manager, and the
  transaction's write set.\<close>

record rm_context =
  ctx_txn :: transaction
  ctx_locks :: lock_table
  ctx_log :: log_manager
  ctx_writes :: "write_record list"

datatype rm_error =
    PageNotExistError page_no
  | DiskIoError page_no
  | RmAssertFailure
  | TransactionAbortException txn_id AbortReason

type_synonym 'a rm_result = "(rm_error + 'a) \<times> rm_file \<times> rm_context option"

section \<open>Page handles\<close>

text \<open>\<open>fetch_page_handle\<close>: the invalid page number is \<open>PageNotExistError\<close>; any other
  page goes to \<open>BufferPoolManager::fetch_page\<close>, whose disk read of a page the file
  does not hold fails in the disk manager (\<open>IoError\<close> of the specification, not among
  the sources): \<open>DiskIoError\<close>.\<close>

definition fetch_page_handle :: "rm_file \<Rightarrow> page_no \<Rightarrow> rm_error + rm_page" where
  "fetch_page_handle f p =
     (if p = INVALID_PAGE_ID then Inl (PageNotExistError p)
      else case pages f p of None \<Rightarrow> Inl (DiskIoError p) | Some pg \<Rightarrow> Inr pg)"

text \<open>A page from \<open>BufferPoolManager::new_page\<close> is zeroed: no record, no bit set.\<close>

definition new_rm_page :: "rm_file \<Rightarrow> rm_page" where
  "new_rm_page f =
     \<lparr>num_records = 0, bitmap = replicate (nat (num_records_per_page f)) False,
      slots = replicate (nat (num_records_per_page f)) (replicate (record_size f) 0)\<rparr>"

text \<open>\<open>create_new_page_handle\<close>: the disk manager hands out the next page number of
  the file, which is \<open>num_pages\<close>, and \<open>num_pages\<close> grows.\<close>

definition create_new_page_handle :: "rm_file \<Rightarrow> page_no \<times> rm_file" where
  "create_new_page_handle f =
     (let p = num_pages f
      in (p, f\<lparr>pages := (pages f)(p \<mapsto> new_rm_page f), num_pages := p + 1\<rparr>))"

text \<open>\<open>create_page_handle\<close>: the first page of the hint set, or a new page that joins
  it. \<open>std::set<int>\<close> is a sorted list without duplicates, \<open>begin()\<close> its head. The
  pool is assumed to have a frame for the new page: when every frame is pinned
  \<open>new_page\<close> returns \<open>nullptr\<close>, which the code dereferences (undefined behaviour, not
  modelled). A hint page without a free slot cannot occur in a file satisfying
  \<open>heap_inv\<close>, the hypothesis of every theorem about these methods.\<close>

definition create_page_handle :: "rm_file \<Rightarrow> (rm_error + (page_no \<times> rm_page)) \<times> rm_file" where
  "create_page_handle f =
     (if free_pageno_set f = [] then
        (let (p, f1) = create_new_page_handle f
         in (Inr (p, new_rm_page f), f1\<lparr>free_pageno_set := insort_insert p (free_pageno_set f1)\<rparr>))
      else (case fetch_page_handle f (hd (free_pageno_set f)) of
              Inl e \<Rightarrow> (Inl e, f)
            | Inr pg \<Rightarrow> (Inr (hd (free_pageno_set f), pg), f)))"

definition get_slot :: "rm_page \<Rightarrow> int \<Rightarrow> rm_record" where
  "get_slot pg s = slots pg ! nat s"

text \<open>\<open>memcpy(get_slot(s), buf, record_size)\<close>.\<close>

definition put_slot :: "rm_file \<Rightarrow> rm_page \<Rightarrow> int \<Rightarrow> rm_record \<Rightarrow> rm_page" where
  "put_slot f pg s buf = pg\<lparr>slots := (slots pg)[nat s := take (record_size f) buf]\<rparr>"

definition store_page :: "rm_file \<Rightarrow> page_no \<Rightarrow> rm_page \<Rightarrow> rm_file" where
  "store_page f p pg = f\<lparr>pages := (pages f)(p \<mapsto> pg)\<rparr>"

section \<open>The context's calls\<close>

text \<open>A lock request through \<open>context->lock_mgr_\<close>: no context, no lock.\<close>

definition ctx_lock :: "(transaction \<Rightarrow> lock_table \<Rightarrow> lock_result) \<Rightarrow> rm_context \<Rightarrow> rm_error + rm_context" where
  "ctx_lock req c =
     (case req (ctx_txn c) (ctx_locks c) of
        Inl (t, r) \<Rightarrow> Inl (TransactionAbortException t r)
      | Inr (t', lt') \<Rightarrow> Inr (c\<lparr>ctx_txn := t', ctx_locks := lt'\<rparr>))"

definition append_write_record :: "write_record \<Rightarrow> rm_context \<Rightarrow> rm_context" where
  "append_write_record w c = c\<lparr>ctx_writes := ctx_writes c @ [w]\<rparr>"

definition ctx_tid :: "rm_context \<Rightarrow> txn_id" where
  "ctx_tid c = txn_id (ctx_txn c)"

definition log_with :: "(log_manager \<Rightarrow> log_manager) \<Rightarrow> rm_context \<Rightarrow> rm_context" where
  "log_with g c = c\<lparr>ctx_log := g (ctx_log c)\<rparr>"

text \<open>The \<open>if (context != nullptr)\<close> lock request of a method.\<close>

definition opt_lock :: "(transaction \<Rightarrow> lock_table \<Rightarrow> lock_result) \<Rightarrow> rm_context option \<Rightarrow>
    rm_error + rm_context option" where
  "opt_lock req ctx =
     (case ctx of
        None \<Rightarrow> Inr None
      | Some c \<Rightarrow> (case ctx_lock req c of Inl e \<Rightarrow> Inl e | Inr c' \<Rightarrow> Inr (Some c')))"

section \<open>Record operations\<close>

text \<open>\<open>get_record(rid, context)\<close>: a shared record lock, then the slot's
  \<open>record_size\<close> bytes. The bitmap is not consulted.\<close>

definition get_record :: "Rid \<Rightarrow> rm_context option \<Rightarrow> rm_file \<Rightarrow> (rm_error + rm_record) \<times> rm_context option" where
  "get_record rid ctx f =
     (case opt_lock (\<lambda>t. lock_shared_on_record t rid (fd f)) ctx of
        Inl e \<Rightarrow> (Inl e, ctx)
      | Inr ctx1 \<Rightarrow>
          (case fetch_page_handle f (rid_page_no rid) of
             Inl e \<Rightarrow> (Inl e, ctx1)
           | Inr pg \<Rightarrow> (Inr (take (record_size f) (get_slot pg (rid_slot_no rid))), ctx1)))"

text \<open>Filling a free slot: copy the bytes, set the bit, count the record, and drop
  the page from the hint set once it is full; shared by both \<open>insert_record\<close>s.\<close>

definition fill_slot :: "rm_file \<Rightarrow> page_no \<Rightarrow> rm_page \<Rightarrow> int \<Rightarrow> rm_record \<Rightarrow> rm_file" where
  "fill_slot f p pg s buf =
     (let pg' = (put_slot f pg s buf)\<lparr>bitmap := bm_set (bitmap pg) s, num_records := num_records pg + 1\<rparr>;
          f2 = store_page f p pg'
      in if num_records pg' = num_records_per_page f
         then f2\<lparr>free_pageno_set := remove1 p (free_pageno_set f2)\<rparr> else f2)"

text \<open>\<open>insert_record(buf, context)\<close>: a page with a free slot, its first zero bit, an
  exclusive lock on the new rid, the write, and with a context the \<open>INSERT_TUPLE\<close>
  write record and the insert log record.\<close>

definition insert_record :: "rm_record \<Rightarrow> rm_context option \<Rightarrow> rm_file \<Rightarrow> Rid rm_result" where
  "insert_record buf ctx f =
     (case create_page_handle f of
        (Inl e, f1) \<Rightarrow> (Inl e, f1, ctx)
      | (Inr (p, pg), f1) \<Rightarrow>
          (let s = first_bit False (bitmap pg) (num_records_per_page f1); rid = Rid p s
           in case opt_lock (\<lambda>t. lock_exclusive_on_record t rid (fd f1)) ctx of
                Inl e \<Rightarrow> (Inl e, f1, ctx)
              | Inr ctx1 \<Rightarrow>
                  (let ins_rec = take (record_size f1) buf;
                       wr = \<lparr>wr_type = INSERT_TUPLE, wr_tab_name = file_name f1, wr_rid = rid, wr_record = ins_rec\<rparr>
                   in (Inr rid, fill_slot f1 p pg s buf,
                       map_option (\<lambda>c. log_with (add_insert_log_record (ctx_tid c) ins_rec rid (file_name f1))
                                         (append_write_record wr c)) ctx1))))"

text \<open>\<open>insert_record_for_load_data\<close>: bulk loading into the page held by the caller's
  page handle \<open>page_buffer\<close> (here its page number); when the page fills up it leaves
  the hint set and the handle moves to the page \<open>create_page_handle\<close> gives.\<close>

definition insert_record_for_load_data :: "rm_record \<Rightarrow> page_no \<Rightarrow> rm_file \<Rightarrow>
    (rm_error + (Rid \<times> page_no)) \<times> rm_file" where
  "insert_record_for_load_data buf p f =
     (case pages f p of
        None \<Rightarrow> (Inl (PageNotExistError p), f)
      | Some pg \<Rightarrow>
          (let s = first_bit False (bitmap pg) (num_records_per_page f);
               f2 = fill_slot f p pg s buf
           in if num_records pg + 1 = num_records_per_page f then
                (case create_page_handle f2 of
                   (Inl e, f3) \<Rightarrow> (Inl e, f3)
                 | (Inr (p', pg'), f3) \<Rightarrow> (Inr (Rid p s, p'), f3))
              else (Inr (Rid p s, p), f2)))"

text \<open>\<open>insert_record(rid, buf)\<close>, used by rollback and recovery: the slot must be free.\<close>

definition insert_record_at :: "Rid \<Rightarrow> rm_record \<Rightarrow> rm_file \<Rightarrow> (rm_error + unit) \<times> rm_file" where
  "insert_record_at rid buf f =
     (case fetch_page_handle f (rid_page_no rid) of
        Inl e \<Rightarrow> (Inl e, f)
      | Inr pg \<Rightarrow>
          if is_set (bitmap pg) (rid_slot_no rid) then (Inl RmAssertFailure, f)
          else (Inr (), fill_slot f (rid_page_no rid) pg (rid_slot_no rid) buf))"

text \<open>The context branch of \<open>delete_record\<close> and \<open>update_record\<close>: the pre-image by
  \<open>get_record\<close> (a shared lock), the exclusive lock (skipped by the \<open>is_add_lock\<close>
  overloads when the flag is false), and the write record holding the pre-image.\<close>

definition ctx_pre_image :: "bool \<Rightarrow> WType \<Rightarrow> Rid \<Rightarrow> rm_file \<Rightarrow> rm_context \<Rightarrow>
    (rm_error + rm_record) \<times> rm_context option" where
  "ctx_pre_image add_lock w rid f c =
     (case get_record rid (Some c) f of
        (Inl e, c1) \<Rightarrow> (Inl e, c1)
      | (Inr r, c1) \<Rightarrow>
          (case (if add_lock then opt_lock (\<lambda>t. lock_exclusive_on_record t rid (fd f)) c1 else Inr c1) of
             Inl e \<Rightarrow> (Inl e, c1)
           | Inr c2 \<Rightarrow>
               (Inr r, map_option (append_write_record
                         \<lparr>wr_type = w, wr_tab_name = file_name f, wr_rid = rid, wr_record = r\<rparr>) c2)))"

text \<open>\<open>delete_record\<close>: an occupied slot is logged (with a context), its bit cleared,
  the count decremented, and the page joins the hint set; a free slot fails the
  assertion.\<close>

definition delete_record :: "Rid \<Rightarrow> rm_context option \<Rightarrow> rm_file \<Rightarrow> unit rm_result" where
  "delete_record rid ctx f =
     (let p = rid_page_no rid; s = rid_slot_no rid
      in case fetch_page_handle f p of
        Inl e \<Rightarrow> (Inl e, f, ctx)
      | Inr pg \<Rightarrow>
          if \<not> is_set (bitmap pg) s then (Inl RmAssertFailure, f, ctx)
          else
            (let pg' = pg\<lparr>bitmap := bm_reset (bitmap pg) s, num_records := num_records pg - 1\<rparr>;
                 f' = (store_page f p pg')\<lparr>free_pageno_set := insort_insert p (free_pageno_set f)\<rparr>
             in case ctx of
               None \<Rightarrow> (Inr (), f', None)
             | Some c \<Rightarrow>
                 (case ctx_pre_image True DELETE_TUPLE rid f c of
                    (Inl e, c1) \<Rightarrow> (Inl e, f, c1)
                  | (Inr r, c1) \<Rightarrow>
                      (Inr (), f', map_option (\<lambda>c. log_with (add_delete_log_record (ctx_tid c) r rid (file_name f)) c) c1))))"

text \<open>\<open>update_record\<close>: an occupied slot is logged (new image, then old) and
  overwritten. The \<open>ENABLE_LSN\<close> line names an undeclared \<open>new_lsn\<close> and is not
  part of any build; it is left out.\<close>

definition update_record :: "Rid \<Rightarrow> rm_record \<Rightarrow> rm_context option \<Rightarrow> rm_file \<Rightarrow> unit rm_result" where
  "update_record rid buf ctx f =
     (let p = rid_page_no rid; s = rid_slot_no rid
      in case fetch_page_handle f p of
        Inl e \<Rightarrow> (Inl e, f, ctx)
      | Inr pg \<Rightarrow>
          if \<not> is_set (bitmap pg) s then (Inl RmAssertFailure, f, ctx)
          else
            (let f' = store_page f p (put_slot f pg s buf)
             in case ctx of
               None \<Rightarrow> (Inr (), f', None)
             | Some c \<Rightarrow>
                 (case ctx_pre_image True UPDATE_TUPLE rid f c of
                    (Inl e, c1) \<Rightarrow> (Inl e, f, c1)
                  | (Inr old, c1) \<Rightarrow>
                      (Inr (), f', map_option (\<lambda>c. log_with (add_update_log_record (ctx_tid c)
                                         (take (record_size f) buf) old rid (file_name f)) c) c1))))"

text \<open>The overloads with \<open>is_add_lock\<close>, called by the delete and update executors
  with \<open>false\<close> when they already hold an exclusive table lock: \<open>get_record\<close> skips
  the shared lock, \<open>delete_record\<close> and \<open>update_record\<close> skip the exclusive one, and
  \<open>update_record\<close> also skips its log record.\<close>

definition get_record_lock :: "Rid \<Rightarrow> bool \<Rightarrow> rm_context option \<Rightarrow> rm_file \<Rightarrow>
    (rm_error + rm_record) \<times> rm_context option" where
  "get_record_lock rid add_lock ctx f =
     (case (if add_lock then opt_lock (\<lambda>t. lock_shared_on_record t rid (fd f)) ctx else Inr ctx) of
        Inl e \<Rightarrow> (Inl e, ctx)
      | Inr ctx1 \<Rightarrow>
          (case fetch_page_handle f (rid_page_no rid) of
             Inl e \<Rightarrow> (Inl e, ctx1)
           | Inr pg \<Rightarrow> (Inr (take (record_size f) (get_slot pg (rid_slot_no rid))), ctx1)))"

definition update_record_lock :: "Rid \<Rightarrow> rm_record \<Rightarrow> bool \<Rightarrow> rm_context option \<Rightarrow> rm_file \<Rightarrow> unit rm_result" where
  "update_record_lock rid buf add_lock ctx f =
     (let p = rid_page_no rid; s = rid_slot_no rid
      in case fetch_page_handle f p of
        Inl e \<Rightarrow> (Inl e, f, ctx)
      | Inr pg \<Rightarrow>
          if \<not> is_set (bitmap pg) s then (Inl RmAssertFailure, f, ctx)
          else
            (let f' = store_page f p (put_slot f pg s buf)
             in case ctx of
               None \<Rightarrow> (Inr (), f', None)
             | Some c \<Rightarrow>
                 (case ctx_pre_image add_lock UPDATE_TUPLE rid f c of
                    (Inl e, c1) \<Rightarrow> (Inl e, f, c1)
                  | (Inr old, c1) \<Rightarrow>
                      (Inr (), f', if add_lock then map_option (\<lambda>c. log_with (add_update_log_record (ctx_tid c)
                                         (take (record_size f) buf) old rid (file_name f)) c) c1 else c1))))"

definition delete_record_lock :: "Rid \<Rightarrow> bool \<Rightarrow> rm_context option \<Rightarrow> rm_file \<Rightarrow> unit rm_result" where
  "delete_record_lock rid add_lock ctx f =
     (let p = rid_page_no rid; s = rid_slot_no rid
      in case fetch_page_handle f p of
        Inl e \<Rightarrow> (Inl e, f, ctx)
      | Inr pg \<Rightarrow>
          if \<not> is_set (bitmap pg) s then (Inl RmAssertFailure, f, ctx)
          else
            (let pg' = pg\<lparr>bitmap := bm_reset (bitmap pg) s, num_records := num_records pg - 1\<rparr>;
                 f' = (store_page f p pg')\<lparr>free_pageno_set := insort_insert p (free_pageno_set f)\<rparr>
             in case ctx of
               None \<Rightarrow> (Inr (), f', None)
             | Some c \<Rightarrow>
                 (case ctx_pre_image add_lock DELETE_TUPLE rid f c of
                    (Inl e, c1) \<Rightarrow> (Inl e, f, c1)
                  | (Inr r, c1) \<Rightarrow>
                      (Inr (), f', map_option (\<lambda>c. log_with (add_delete_log_record (ctx_tid c) r rid (file_name f)) c) c1))))"

text \<open>\<open>allocpage\<close>, used by recovery: new pages join the hint set until the file
  holds page \<open>rid.page_no\<close>.\<close>

function allocpage :: "Rid \<Rightarrow> rm_file \<Rightarrow> rm_file" where
  "allocpage rid f =
     (if rid_page_no rid \<ge> num_pages f then
        (let (p, f1) = create_new_page_handle f
         in allocpage rid (f1\<lparr>free_pageno_set := insort_insert p (free_pageno_set f1)\<rparr>))
      else f)"
  by pat_completeness auto
termination
  by (relation "measure (\<lambda>(rid, f). nat (rid_page_no rid + 1 - num_pages f))")
     (auto simp: create_new_page_handle_def Let_def)

declare allocpage.simps [simp del]

section \<open>Scans\<close>

text \<open>The page loop of the \<open>RmScan\<close> constructor and of \<open>RmScan::next\<close>: from page
  \<open>p\<close> and after slot \<open>s\<close>, the next set bit; \<open>None\<close> is the end, where \<open>rid_.page_no\<close>
  becomes \<open>INVALID_PAGE_ID\<close>.\<close>

function scan_from :: "rm_file \<Rightarrow> page_no \<Rightarrow> int \<Rightarrow> rm_error + Rid option" where
  "scan_from f p s =
     (if p < num_pages f then
        (case fetch_page_handle f p of
           Inl e \<Rightarrow> Inl e
         | Inr pg \<Rightarrow>
             (let ind = next_bit True (bitmap pg) (num_records_per_page f) s
              in if ind = num_records_per_page f then scan_from f (p + 1) (-1) else Inr (Some (Rid p ind))))
      else Inr None)"
  by pat_completeness auto
termination
  by (relation "measure (\<lambda>(f, p, s). nat (num_pages f - p))") auto

declare scan_from.simps [simp del]

definition rm_scan_begin :: "rm_file \<Rightarrow> rm_error + Rid option" where
  "rm_scan_begin f = scan_from f 1 (-1)"

definition rm_scan_next :: "rm_file \<Rightarrow> Rid option \<Rightarrow> rm_error + Rid option" where
  "rm_scan_next f cur =
     (case cur of None \<Rightarrow> Inl RmAssertFailure | Some rid \<Rightarrow> scan_from f (rid_page_no rid) (rid_slot_no rid))"

text \<open>\<open>RmScan\<close> iterated: \<open>next()\<close> applied until \<open>is_end()\<close>, the rids it visits
  from a position on (the condition test and the record locks of the executors that
  drive this loop are in theory \<open>Executors\<close>). It ends because every step moves forward, to a later
  page below \<open>num_pages\<close> or to a later slot below \<open>num_records_per_page\<close>.\<close>

function scan_rids :: "rm_file \<Rightarrow> page_no \<Rightarrow> int \<Rightarrow> rm_error + Rid list" where
  "scan_rids f p s =
     (case scan_from f p s of
        Inl e \<Rightarrow> Inl e
      | Inr None \<Rightarrow> Inr []
      | Inr (Some r) \<Rightarrow>
          (case scan_rids f (rid_page_no r) (rid_slot_no r) of Inl e \<Rightarrow> Inl e | Inr rs \<Rightarrow> Inr (r # rs)))"
  by pat_completeness auto
termination
proof -
  have nb: "next_bit v bm n c \<noteq> n \<Longrightarrow> c < next_bit v bm n c \<and> next_bit v bm n c < n" for v bm n c
  proof (induction v bm n c rule: next_bit.induct)
    case (1 v bm n c)
    show ?case
    proof (cases "c + 1 < n")
      case True
      then show ?thesis
      proof (cases "bm ! nat (c + 1) = v")
        case False
        then have "next_bit v bm n c = next_bit v bm n (c + 1)" using True by (simp add: next_bit.simps[of v bm n c])
        then show ?thesis using "1.IH"[OF True False] "1.prems" by simp
      qed (simp add: next_bit.simps[of v bm n c])
    qed (use "1.prems" in \<open>simp add: next_bit.simps[of v bm n c]\<close>)
  qed
  have adv: "p \<le> rid_page_no r \<and> rid_page_no r < num_pages f \<and> (rid_page_no r = p \<longrightarrow> s < rid_slot_no r) \<and>
      rid_slot_no r < num_records_per_page f" if "scan_from f p s = Inr (Some r)" for f p s r
    using that
  proof (induction f p s rule: scan_from.induct)
    case (1 f p s)
    note def = scan_from.simps[of f p s]
    show ?case
    proof (cases "p < num_pages f")
      case lt: True
      then obtain pg where pg: "fetch_page_handle f p = Inr pg"
        using "1.prems" def by (cases "fetch_page_handle f p") simp_all
      show ?thesis
      proof (cases "next_bit True (bitmap pg) (num_records_per_page f) s = num_records_per_page f")
        case True
        then show ?thesis using "1.IH"[OF lt pg] "1.prems" lt pg def by simp
      next
        case False
        then show ?thesis using "1.prems" lt pg def nb[OF False] by auto
      qed
    qed (use "1.prems" def in simp)
  qed
  show ?thesis
  proof (relation "measures [\<lambda>(f, p, s). nat (num_pages f - p), \<lambda>(f, p, s). nat (num_records_per_page f - s)]",
      goal_cases)
    case 1
    then show ?case by simp
  next
    case (2 f p s x r)
    then have a: "scan_from f p s = Inr (Some r)" by simp
    show ?case using adv[OF a] by (cases "rid_page_no r = p") auto
  qed
qed

declare scan_rids.simps [simp del]

definition rm_scan_all :: "rm_file \<Rightarrow> rm_error + Rid list" where
  "rm_scan_all f = scan_rids f 1 (-1)"

section \<open>The operations as one step function\<close>

text \<open>The heap methods the executors, the transaction manager and recovery call, as
  one operation type; the result of an insert is the new rid.\<close>

datatype heap_op =
    OpInsert rm_record | OpInsertAt Rid rm_record | OpDelete Rid | OpUpdate Rid rm_record
  | OpDeleteLock Rid bool | OpUpdateLock Rid rm_record bool
  | OpAllocPage Rid

fun heap_step :: "heap_op \<Rightarrow> rm_context option \<Rightarrow> rm_file \<Rightarrow> Rid option rm_result" where
  "heap_step (OpInsert buf) ctx f =
     (case insert_record buf ctx f of (r, f', c') \<Rightarrow> (map_sum id Some r, f', c'))"
| "heap_step (OpInsertAt rid buf) ctx f =
     (case insert_record_at rid buf f of (r, f') \<Rightarrow> (map_sum id (\<lambda>_. None) r, f', ctx))"
| "heap_step (OpDelete rid) ctx f =
     (case delete_record rid ctx f of (r, f', c') \<Rightarrow> (map_sum id (\<lambda>_. None) r, f', c'))"
| "heap_step (OpUpdate rid buf) ctx f =
     (case update_record rid buf ctx f of (r, f', c') \<Rightarrow> (map_sum id (\<lambda>_. None) r, f', c'))"
| "heap_step (OpDeleteLock rid b) ctx f =
     (case delete_record_lock rid b ctx f of (r, f', c') \<Rightarrow> (map_sum id (\<lambda>_. None) r, f', c'))"
| "heap_step (OpUpdateLock rid buf b) ctx f =
     (case update_record_lock rid buf b ctx f of (r, f', c') \<Rightarrow> (map_sum id (\<lambda>_. None) r, f', c'))"
| "heap_step (OpAllocPage rid) ctx f = (Inr None, allocpage rid f, ctx)"

section \<open>Abstraction and invariant\<close>

text \<open>What a heap file stores: the record of every occupied slot, as
  \<open>get_record\<close> returns it.\<close>

definition heap_abs :: "rm_file \<Rightarrow> Rid \<rightharpoonup> rm_record" where
  "heap_abs f rid =
     (case pages f (rid_page_no rid) of
        None \<Rightarrow> None
      | Some pg \<Rightarrow>
          if 0 \<le> rid_slot_no rid \<and> rid_slot_no rid < num_records_per_page f \<and> is_set (bitmap pg) (rid_slot_no rid)
          then Some (take (record_size f) (get_slot pg (rid_slot_no rid))) else None)"

text \<open>A page agrees with the file: a bit and a slot per record place, the header
  counts the set bits, and the page is in the hint set exactly when it has a free
  slot.\<close>

definition page_ok :: "rm_file \<Rightarrow> page_no \<Rightarrow> rm_page \<Rightarrow> bool" where
  "page_ok f p pg \<longleftrightarrow>
     length (bitmap pg) = nat (num_records_per_page f) \<and>
     length (slots pg) = nat (num_records_per_page f) \<and>
     num_records pg = int (count_list (bitmap pg) True) \<and>
     (p \<in> set (free_pageno_set f) \<longleftrightarrow> num_records pg < num_records_per_page f)"

definition heap_inv :: "rm_file \<Rightarrow> bool" where
  "heap_inv f \<longleftrightarrow>
     0 < num_records_per_page f \<and> 1 \<le> num_pages f \<and>
     (\<forall>p. (pages f p \<noteq> None) = (1 \<le> p \<and> p < num_pages f)) \<and>
     (\<forall>p pg. pages f p = Some pg \<longrightarrow> page_ok f p pg) \<and>
     sorted (free_pageno_set f) \<and> distinct (free_pageno_set f) \<and>
     set (free_pageno_set f) \<subseteq> {1..<num_pages f}"

text \<open>A rid whose slot number lies within a page; the methods do not check it.\<close>

definition slot_in_range :: "rm_file \<Rightarrow> Rid \<Rightarrow> bool" where
  "slot_in_range f rid \<longleftrightarrow> 0 \<le> rid_slot_no rid \<and> rid_slot_no rid < num_records_per_page f"

fun op_ok :: "rm_file \<Rightarrow> heap_op \<Rightarrow> bool" where
  "op_ok f (OpInsert buf) = True"
| "op_ok f (OpInsertAt rid buf) = slot_in_range f rid"
| "op_ok f (OpDelete rid) = slot_in_range f rid"
| "op_ok f (OpUpdate rid buf) = slot_in_range f rid"
| "op_ok f (OpDeleteLock rid b) = slot_in_range f rid"
| "op_ok f (OpUpdateLock rid buf b) = slot_in_range f rid"
| "op_ok f (OpAllocPage rid) = True"

text \<open>Two states of one file: the fields the methods never change.\<close>

definition same_hdr :: "rm_file \<Rightarrow> rm_file \<Rightarrow> bool" where
  "same_hdr g f \<longleftrightarrow>
     record_size g = record_size f \<and> num_records_per_page g = num_records_per_page f \<and>
     fd g = fd f \<and> file_name g = file_name f"

text \<open>A file with two slots per page: page 1 full, page 2 holding slot 0.\<close>

definition demo_file :: rm_file where
  "demo_file =
     \<lparr>record_size = 2, num_records_per_page = 2, num_pages = 3, fd = 7, file_name = ''t'',
      pages = [1 \<mapsto> \<lparr>num_records = 2, bitmap = [True, True], slots = [[1, 1], [2, 2]]\<rparr>,
               2 \<mapsto> \<lparr>num_records = 1, bitmap = [True, False], slots = [[3, 3], [0, 0]]\<rparr>],
      free_pageno_set = [2]\<rparr>"


text \<open>The transaction holds an entry of the given mode in the object's queue.\<close>

definition holds_lock :: "lock_table \<Rightarrow> txn_id \<Rightarrow> LockDataId \<Rightarrow> LockMode \<Rightarrow> bool" where
  "holds_lock lt t lid m = (case lt lid of None \<Rightarrow> False | Some q \<Rightarrow> list_ex (\<lambda>r. req_txn r = t \<and> req_mode r = m) q)"

definition demo_ctx :: rm_context where
  "demo_ctx = \<lparr>ctx_txn = demo_txn 1, ctx_locks = Map.empty, ctx_log = log_init, ctx_writes = []\<rparr>"


section \<open>Bitmap and page lemmas\<close>

lemma count_set_bit:
  "i < length bm \<Longrightarrow> \<not> bm ! i \<Longrightarrow> count_list (bm[i := True]) True = Suc (count_list bm True)"
  by (induction bm arbitrary: i) (auto split: nat.splits)

lemma count_reset_bit:
  "i < length bm \<Longrightarrow> bm ! i \<Longrightarrow> Suc (count_list (bm[i := False]) True) = count_list bm True"
  by (induction bm arbitrary: i) (auto split: nat.splits)

lemma count_list_le_length: "count_list xs x \<le> length xs"
  by (induction xs) auto

lemma count_list_less_ex: "count_list bm True < length bm \<Longrightarrow> False \<in> set bm"
  by (induction bm) auto

lemma length_takeWhile_less_ex: "\<exists>x\<in>set xs. \<not> P x \<Longrightarrow> length (takeWhile P xs) < length xs"
  by (induction xs) auto

lemma first_bit_free:
  assumes "length bm = nat n" "count_list bm True < length bm"
  shows "0 \<le> first_bit False bm n \<and> first_bit False bm n < n \<and> \<not> bm ! nat (first_bit False bm n)"
proof -
  have ex: "\<exists>x\<in>set bm. \<not> x \<noteq> False" using count_list_less_ex[OF assms(2)] by auto
  have lt: "length (takeWhile (\<lambda>b. b \<noteq> False) bm) < length bm"
    using ex by (rule length_takeWhile_less_ex)
  have "\<not> bm ! length (takeWhile (\<lambda>b. b \<noteq> False) bm)"
    using nth_length_takeWhile[of "\<lambda>b. b \<noteq> False" bm] lt by simp
  then show ?thesis using lt assms(1) by (simp add: first_bit_def)
qed

lemma page_ok_cong:
  "num_records_per_page g = num_records_per_page f \<Longrightarrow>
   (q \<in> set (free_pageno_set g) \<longleftrightarrow> q \<in> set (free_pageno_set f)) \<Longrightarrow> page_ok g q pg = page_ok f q pg"
  by (simp add: page_ok_def)

lemma heap_inv_store:
  assumes inv: "heap_inv f" and dom: "pages f p \<noteq> None"
    and F: "sorted F" "distinct F" "set F \<subseteq> {1..<num_pages f}"
    and other: "\<And>q. q \<noteq> p \<Longrightarrow> q \<in> set F \<longleftrightarrow> q \<in> set (free_pageno_set f)"
    and okp: "page_ok ((store_page f p pg')\<lparr>free_pageno_set := F\<rparr>) p pg'"
  shows "heap_inv ((store_page f p pg')\<lparr>free_pageno_set := F\<rparr>)"
  unfolding heap_inv_def
proof (intro conjI allI impI)
  let ?g = "(store_page f p pg')\<lparr>free_pageno_set := F\<rparr>"
  fix q pg assume q: "pages ?g q = Some pg"
  show "page_ok ?g q pg"
  proof (cases "q = p")
    case True then show ?thesis using q okp by (simp add: store_page_def)
  next
    case False
    then have "pages f q = Some pg" using q by (simp add: store_page_def)
    then have "page_ok f q pg" using inv by (simp add: heap_inv_def)
    then show ?thesis using page_ok_cong[of ?g f q pg] other[OF False] by (simp add: store_page_def)
  qed
qed (use inv dom F in \<open>auto simp: heap_inv_def store_page_def\<close>)

lemma page_ok_len:
  "page_ok f p pg \<Longrightarrow> slot_in_range f (Rid p s) \<Longrightarrow> nat s < length (bitmap pg) \<and> nat s < length (slots pg)"
  by (auto simp: page_ok_def slot_in_range_def)

lemma inv_page_ok: "heap_inv f \<Longrightarrow> pages f p = Some pg \<Longrightarrow> page_ok f p pg"
  by (simp add: heap_inv_def)

lemma inv_free_set:
  "heap_inv f \<Longrightarrow> sorted (free_pageno_set f) \<and> distinct (free_pageno_set f) \<and> set (free_pageno_set f) \<subseteq> {1..<num_pages f}"
  by (simp add: heap_inv_def)

lemma inv_dom: "heap_inv f \<Longrightarrow> pages f p = Some pg \<Longrightarrow> 1 \<le> p \<and> p < num_pages f"
  unfolding heap_inv_def by (metis option.distinct(1))

lemma inv_page_exists: "heap_inv f \<Longrightarrow> 1 \<le> p \<Longrightarrow> p < num_pages f \<Longrightarrow> \<exists>pg. pages f p = Some pg"
  unfolding heap_inv_def by auto

lemma fill_slot_inv:
  assumes inv: "heap_inv f" and pg: "pages f p = Some pg" and sr: "slot_in_range f (Rid p s)"
    and free: "\<not> is_set (bitmap pg) s"
  shows "heap_inv (fill_slot f p pg s buf)"
proof -
  let ?n = "num_records_per_page f"
  define pg' where "pg' = (put_slot f pg s buf)\<lparr>bitmap := bm_set (bitmap pg) s, num_records := num_records pg + 1\<rparr>"
  have ok: "page_ok f p pg" using inv pg by (rule inv_page_ok)
  have len: "nat s < length (bitmap pg)" using page_ok_len[OF ok sr] by simp
  have cs: "count_list (bitmap pg') True = Suc (count_list (bitmap pg) True)"
    using count_set_bit[OF len] free by (simp add: pg'_def bm_set_def is_set_def put_slot_def)
  have cl: "count_list (bitmap pg') True \<le> nat ?n"
    using count_list_le_length[of "bitmap pg'" True] ok by (simp add: pg'_def bm_set_def put_slot_def page_ok_def)
  have n0: "0 < ?n" using inv by (simp add: heap_inv_def)
  have num': "num_records pg' = int (count_list (bitmap pg') True)" using ok cs by (simp add: pg'_def page_ok_def)
  have pin: "p \<in> set (free_pageno_set f)" using ok cs cl n0 by (simp add: page_ok_def pg'_def)
  have fs: "sorted (free_pageno_set f)" "distinct (free_pageno_set f)" "set (free_pageno_set f) \<subseteq> {1..<num_pages f}"
    using inv_free_set[OF inv] by auto
  have lens: "length (bitmap pg') = nat ?n" "length (slots pg') = nat ?n"
    using ok by (simp_all add: pg'_def bm_set_def put_slot_def page_ok_def)
  show ?thesis
  proof (cases "num_records pg' = ?n")
    case True
    have "heap_inv ((store_page f p pg')\<lparr>free_pageno_set := remove1 p (free_pageno_set f)\<rparr>)"
      by (rule heap_inv_store[OF inv])
         (use pg fs lens num' True in \<open>auto simp: sorted_remove1 page_ok_def store_page_def dest: set_mp[OF set_remove1_subset]\<close>)
    then show ?thesis using True by (simp add: fill_slot_def Let_def pg'_def[symmetric] store_page_def)
  next
    case False
    have "heap_inv ((store_page f p pg')\<lparr>free_pageno_set := free_pageno_set f\<rparr>)"
      by (rule heap_inv_store[OF inv]) (use pg fs lens num' False pin cl n0 in \<open>auto simp: page_ok_def store_page_def\<close>)
    then show ?thesis using False by (simp add: fill_slot_def Let_def pg'_def[symmetric] store_page_def)
  qed
qed

lemma heap_abs_free_set [simp]: "heap_abs (f\<lparr>free_pageno_set := F\<rparr>) = heap_abs f"
  by (simp add: heap_abs_def fun_eq_iff split: option.split)

lemma heap_abs_store_page:
  assumes pg: "pages f p = Some pg" and sr: "slot_in_range f (Rid p s)"
    and bm: "\<And>i. i \<noteq> nat s \<Longrightarrow> bitmap pg' ! i = bitmap pg ! i"
    and sl: "\<And>i. i \<noteq> nat s \<Longrightarrow> slots pg' ! i = slots pg ! i"
  shows "heap_abs (store_page f p pg') =
           (heap_abs f)(Rid p s := (if is_set (bitmap pg') s then Some (take (record_size f) (get_slot pg' s)) else None))"
proof
  fix rid
  show "heap_abs (store_page f p pg') rid =
          ((heap_abs f)(Rid p s := (if is_set (bitmap pg') s then Some (take (record_size f) (get_slot pg' s)) else None))) rid"
  proof (cases rid)
    case (Rid q t)
    show ?thesis
    proof (cases "q = p \<and> t = s")
      case True then show ?thesis using Rid sr
        by (auto simp: heap_abs_def store_page_def slot_in_range_def split: option.split)
    next
      case False
      show ?thesis
      proof (cases "q = p \<and> 0 \<le> t")
        case True
        then have "nat t \<noteq> nat s" using False sr by (auto simp: slot_in_range_def)
        then show ?thesis using Rid True pg bm[of "nat t"] sl[of "nat t"]
          by (auto simp: heap_abs_def store_page_def is_set_def get_slot_def split: option.split)
      qed (use Rid False in \<open>auto simp: heap_abs_def store_page_def split: option.split\<close>)
    qed
  qed
qed

lemma fill_slot_abs:
  assumes pg: "pages f p = Some pg" and sr: "slot_in_range f (Rid p s)" and ok: "page_ok f p pg"
  shows "heap_abs (fill_slot f p pg s buf) = (heap_abs f)(Rid p s \<mapsto> take (record_size f) buf)"
proof -
  define pg' where "pg' = (put_slot f pg s buf)\<lparr>bitmap := bm_set (bitmap pg) s, num_records := num_records pg + 1\<rparr>"
  have len: "nat s < length (bitmap pg) \<and> nat s < length (slots pg)" using page_ok_len[OF ok sr] .
  have "heap_abs (fill_slot f p pg s buf) = heap_abs (store_page f p pg')"
    unfolding fill_slot_def Let_def pg'_def by (simp only: if_distrib heap_abs_free_set if_cancel)
  also have "\<dots> = (heap_abs f)(Rid p s \<mapsto> take (record_size f) buf)"
    by (subst heap_abs_store_page[OF pg sr])
       (use len in \<open>simp_all add: pg'_def put_slot_def bm_set_def is_set_def get_slot_def\<close>)
  finally show ?thesis .
qed

lemma new_rm_page_inv:
  assumes inv: "heap_inv f" and cn: "create_new_page_handle f = (p, f1)"
  defines "g \<equiv> f1\<lparr>free_pageno_set := insort_insert p (free_pageno_set f1)\<rparr>"
  shows "heap_inv g \<and> heap_abs g = heap_abs f \<and> pages g p = Some (new_rm_page f) \<and>
         num_pages f < num_pages g \<and> record_size g = record_size f \<and>
         num_records_per_page g = num_records_per_page f \<and> fd g = fd f \<and> file_name g = file_name f"
proof -
  have p: "p = num_pages f" and f1: "f1 = f\<lparr>pages := (pages f)(p \<mapsto> new_rm_page f), num_pages := p + 1\<rparr>"
    using cn by (auto simp: create_new_page_handle_def Let_def)
  have n0: "0 < num_records_per_page f" and np: "1 \<le> num_pages f"
    and dom: "\<And>q. (pages f q \<noteq> None) = (1 \<le> q \<and> q < num_pages f)"
    and oks: "\<And>q pg. pages f q = Some pg \<Longrightarrow> page_ok f q pg"
    using inv by (simp_all add: heap_inv_def)
  have fs: "sorted (free_pageno_set f)" "distinct (free_pageno_set f)" "set (free_pageno_set f) \<subseteq> {1..<num_pages f}"
    using inv_free_set[OF inv] by auto
  have pnot: "p \<notin> set (free_pageno_set f)" using fs(3) p by auto
  have okg: "page_ok g q pg" if q: "pages g q = Some pg" for q pg
  proof (cases "q = p")
    case True
    then have "pg = new_rm_page f" using q by (simp add: g_def f1)
    then show ?thesis using True n0 by (simp add: g_def f1 page_ok_def new_rm_page_def set_insort_insert)
  next
    case False
    then have "page_ok f q pg" using q oks by (simp add: g_def f1)
    then show ?thesis using False by (simp add: g_def f1 page_ok_def set_insort_insert)
  qed
  have "heap_inv g"
    unfolding heap_inv_def
    using n0 np dom fs okg by (auto simp: g_def f1 p sorted_insort_insert distinct_insort_insert set_insort_insert)
  moreover have "heap_abs g = heap_abs f"
  proof
    fix rid
    have "pages f p = None" using dom[of p] p by auto
    then show "heap_abs g rid = heap_abs f rid"
      by (cases "rid_page_no rid = p")
         (auto simp: heap_abs_def g_def f1 new_rm_page_def is_set_def split: option.split)
  qed
  ultimately show ?thesis by (simp add: g_def f1 p)
qed

lemma same_hdr_refl [simp]: "same_hdr f f"
  by (simp add: same_hdr_def)

lemma inv_pos: "heap_inv f \<Longrightarrow> 0 < num_records_per_page f \<and> 1 \<le> num_pages f"
  by (simp add: heap_inv_def)

lemma create_page_handle_ok:
  assumes inv: "heap_inv f" and cp: "create_page_handle f = (r, f1)"
  shows "\<exists>p pg. r = Inr (p, pg) \<and> heap_inv f1 \<and> pages f1 p = Some pg \<and> page_ok f1 p pg \<and>
           num_records pg < num_records_per_page f1 \<and> heap_abs f1 = heap_abs f \<and> same_hdr f1 f"
proof (cases "free_pageno_set f = []")
  case True
  obtain p f0 where cn: "create_new_page_handle f = (p, f0)" by fastforce
  have "create_page_handle f = (Inr (p, new_rm_page f), f0\<lparr>free_pageno_set := insort_insert p (free_pageno_set f0)\<rparr>)"
    using True cn by (simp add: create_page_handle_def)
  then have r: "r = Inr (p, new_rm_page f)" and f1: "f1 = f0\<lparr>free_pageno_set := insort_insert p (free_pageno_set f0)\<rparr>"
    using cp by simp_all
  note np = new_rm_page_inv[OF inv cn, folded f1]
  have ok: "page_ok f1 p (new_rm_page f)" using np inv_page_ok[of f1 p "new_rm_page f"] by simp
  have "num_records (new_rm_page f) < num_records_per_page f1"
    using np inv_pos[OF inv] by (simp add: new_rm_page_def)
  then show ?thesis using np ok r unfolding same_hdr_def by blast
next
  case False
  let ?p = "hd (free_pageno_set f)"
  have pin: "?p \<in> set (free_pageno_set f)" using False by simp
  then have rng: "1 \<le> ?p \<and> ?p < num_pages f" using inv_free_set[OF inv] by auto
  then obtain pg where pg: "pages f ?p = Some pg" using inv_page_exists[OF inv] by blast
  have ok: "page_ok f ?p pg" using inv pg by (rule inv_page_ok)
  have "create_page_handle f = (Inr (?p, pg), f)"
    using False pg rng by (simp add: create_page_handle_def fetch_page_handle_def INVALID_PAGE_ID_def)
  then have r: "r = Inr (?p, pg)" and f1: "f1 = f" using cp by simp_all
  have "num_records pg < num_records_per_page f" using ok pin by (simp add: page_ok_def)
  then show ?thesis using r f1 pg ok inv by auto
qed
lemma allocpage_inv:
  "heap_inv f \<Longrightarrow> heap_inv (allocpage rid f) \<and> heap_abs (allocpage rid f) = heap_abs f \<and>
     same_hdr (allocpage rid f) f \<and> rid_page_no rid < num_pages (allocpage rid f)"
proof (induction rid f rule: allocpage.induct)
  case (1 rid f)
  show ?case
  proof (cases "rid_page_no rid \<ge> num_pages f")
    case True
    obtain p f0 where cn: "create_new_page_handle f = (p, f0)" by fastforce
    define g where "g = f0\<lparr>free_pageno_set := insort_insert p (free_pageno_set f0)\<rparr>"
    note np = new_rm_page_inv[OF "1.prems" cn, folded g_def]
    have eq: "allocpage rid f = allocpage rid g" using True cn by (simp add: allocpage.simps[of rid f] g_def)
    have ih: "heap_inv (allocpage rid g) \<and> heap_abs (allocpage rid g) = heap_abs g \<and>
        same_hdr (allocpage rid g) g \<and> rid_page_no rid < num_pages (allocpage rid g)"
      using "1.IH"[OF True cn[symmetric] refl] np unfolding g_def by blast
    then show ?thesis using eq np unfolding same_hdr_def by simp
  next
    case False
    then show ?thesis using "1.prems" by (simp add: allocpage.simps[of rid f])
  qed
qed


lemma first_bit_page:
  assumes ok: "page_ok f p pg" and lt: "num_records pg < num_records_per_page f"
  defines "s \<equiv> first_bit False (bitmap pg) (num_records_per_page f)"
  shows "slot_in_range f (Rid p s) \<and> \<not> is_set (bitmap pg) s"
proof -
  have "count_list (bitmap pg) True < length (bitmap pg)" using ok lt by (simp add: page_ok_def)
  then show ?thesis using first_bit_free[of "bitmap pg" "num_records_per_page f"] ok
    by (simp add: s_def page_ok_def slot_in_range_def is_set_def)
qed

lemma free_slot_abs_none:
  "pages f p = Some pg \<Longrightarrow> \<not> is_set (bitmap pg) s \<Longrightarrow> heap_abs f (Rid p s) = None"
  by (simp add: heap_abs_def)

lemma first_bit_below_set:
  assumes "i < nat (first_bit False bm n)"
  shows "bm ! i"
proof -
  let ?t = "takeWhile (\<lambda>b. b \<noteq> False) (take (nat n) bm)"
  have i: "i < length ?t" using assms by (simp add: first_bit_def)
  then have "?t ! i" using set_takeWhileD[OF nth_mem[OF i]] by simp
  moreover have "?t ! i = take (nat n) bm ! i" using i by (rule takeWhile_nth)
  moreover have "i < length (take (nat n) bm)" using i length_takeWhile_le[of "\<lambda>b. b \<noteq> False" "take (nat n) bm"] by linarith
  ultimately show ?thesis by simp
qed

lemma create_page_handle_page:
  "create_page_handle f = (Inr (p, pg), f1) \<Longrightarrow>
     p = (if free_pageno_set f = [] then num_pages f else hd (free_pageno_set f))"
  by (auto simp: create_page_handle_def create_new_page_handle_def Let_def split: if_splits sum.splits)

lemma insert_record_effect:
  assumes inv: "heap_inv f" and ins: "insert_record buf ctx f = (r, f', c')"
  shows "heap_inv f' \<and> same_hdr f' f \<and>
    (\<forall>e. r = Inl e \<longrightarrow> heap_abs f' = heap_abs f \<and> c' = ctx) \<and>
    (\<forall>rid. r = Inr rid \<longrightarrow> heap_abs f rid = None \<and> heap_abs f' = (heap_abs f)(rid \<mapsto> take (record_size f) buf))"
proof -
  obtain cr f1 where cp: "create_page_handle f = (cr, f1)" by fastforce
  obtain p pg where cr: "cr = Inr (p, pg)" and inv1: "heap_inv f1" and pg: "pages f1 p = Some pg"
    and ok: "page_ok f1 p pg" and lt: "num_records pg < num_records_per_page f1"
    and abs1: "heap_abs f1 = heap_abs f" and hdr1: "same_hdr f1 f"
    using create_page_handle_ok[OF inv cp] by blast
  define s where "s = first_bit False (bitmap pg) (num_records_per_page f1)"
  have sl: "slot_in_range f1 (Rid p s)" and fr: "\<not> is_set (bitmap pg) s"
    using first_bit_page[OF ok lt] by (simp_all add: s_def)
  show ?thesis
  proof (cases "opt_lock (\<lambda>t. lock_exclusive_on_record t (Rid p s) (fd f1)) ctx")
    case (Inl e)
    then have "r = Inl e \<and> f' = f1 \<and> c' = ctx" using ins cp cr by (simp add: insert_record_def s_def[symmetric])
    then show ?thesis using inv1 abs1 hdr1 by simp
  next
    case (Inr ctx1)
    then have rf: "r = Inr (Rid p s) \<and> f' = fill_slot f1 p pg s buf"
      using ins cp cr by (simp add: insert_record_def s_def[symmetric] Let_def)
    have "same_hdr f' f1" using rf by (simp add: same_hdr_def fill_slot_def Let_def store_page_def put_slot_def)
    then have "same_hdr f' f" using hdr1 by (simp add: same_hdr_def)
    moreover have "heap_inv f'" using rf fill_slot_inv[OF inv1 pg sl fr] by simp
    moreover have "heap_abs f' = (heap_abs f)(Rid p s \<mapsto> take (record_size f) buf)"
      using rf fill_slot_abs[OF pg sl ok] abs1 hdr1 by (simp add: same_hdr_def)
    moreover have "heap_abs f (Rid p s) = None" using free_slot_abs_none[OF pg fr] abs1 by simp
    ultimately show ?thesis using rf by simp
  qed
qed


lemma fetch_page_handle_Inr: "fetch_page_handle f p = Inr pg \<Longrightarrow> pages f p = Some pg"
  by (auto simp: fetch_page_handle_def split: if_splits option.splits)

lemma fetch_page_handle_Inl:
  "heap_inv f \<Longrightarrow> fetch_page_handle f p = Inl e \<Longrightarrow> heap_abs f (Rid p s) = None"
  by (auto simp: fetch_page_handle_def heap_abs_def INVALID_PAGE_ID_def dest: inv_dom split: if_splits option.splits)

lemma set_slot_abs:
  "pages f p = Some pg \<Longrightarrow> slot_in_range f (Rid p s) \<Longrightarrow> is_set (bitmap pg) s \<Longrightarrow>
     heap_abs f (Rid p s) = Some (take (record_size f) (get_slot pg s))"
  by (simp add: heap_abs_def slot_in_range_def)

lemma reset_slot_inv:
  assumes inv: "heap_inv f" and pg: "pages f p = Some pg" and sr: "slot_in_range f (Rid p s)"
    and set: "is_set (bitmap pg) s"
  defines "pg' \<equiv> pg\<lparr>bitmap := bm_reset (bitmap pg) s, num_records := num_records pg - 1\<rparr>"
  shows "heap_inv ((store_page f p pg')\<lparr>free_pageno_set := insort_insert p (free_pageno_set f)\<rparr>) \<and>
         heap_abs (store_page f p pg') = (heap_abs f)(Rid p s := None)"
proof -
  have ok: "page_ok f p pg" using inv pg by (rule inv_page_ok)
  have len: "nat s < length (bitmap pg) \<and> nat s < length (slots pg)" using page_ok_len[OF ok sr] .
  have cs: "Suc (count_list (bitmap pg') True) = count_list (bitmap pg) True"
    using count_reset_bit[of "nat s" "bitmap pg"] len set by (simp add: pg'_def bm_reset_def is_set_def)
  have cl: "count_list (bitmap pg) True \<le> nat (num_records_per_page f)"
    using count_list_le_length[of "bitmap pg" True] ok by (simp add: page_ok_def)
  have rng: "1 \<le> p \<and> p < num_pages f" using inv_dom[OF inv pg] .
  have fs: "sorted (free_pageno_set f)" "distinct (free_pageno_set f)" "set (free_pageno_set f) \<subseteq> {1..<num_pages f}"
    using inv_free_set[OF inv] by auto
  have "heap_inv ((store_page f p pg')\<lparr>free_pageno_set := insort_insert p (free_pageno_set f)\<rparr>)"
    by (rule heap_inv_store[OF inv])
       (use pg fs rng ok cs cl len in \<open>auto simp: sorted_insort_insert distinct_insort_insert set_insort_insert
          page_ok_def store_page_def pg'_def bm_reset_def\<close>)
  moreover have "heap_abs (store_page f p pg') = (heap_abs f)(Rid p s := None)"
    by (subst heap_abs_store_page[OF pg sr]) (use len in \<open>simp_all add: pg'_def bm_reset_def is_set_def\<close>)
  ultimately show ?thesis by simp
qed

lemma delete_record_lock_effect:
  assumes inv: "heap_inv f" and sr: "slot_in_range f rid" and del: "delete_record_lock rid b ctx f = (r, f', c')"
  shows "heap_inv f' \<and> same_hdr f' f \<and> dom (pages f') = dom (pages f) \<and> (\<forall>e. r = Inl e \<longrightarrow> f' = f) \<and>
    (r = Inr () \<longrightarrow> heap_abs f rid \<noteq> None \<and> heap_abs f' = (heap_abs f)(rid := None))"
proof (cases rid)
  case (Rid p s)
  show ?thesis
  proof (cases "fetch_page_handle f p")
    case (Inl e)
    then show ?thesis using del inv Rid by (auto simp: delete_record_lock_def)
  next
    case (Inr pg)
    have pg: "pages f p = Some pg" using fetch_page_handle_Inr[OF Inr] .
    show ?thesis
    proof (cases "is_set (bitmap pg) s")
      case False
      then show ?thesis using del inv Rid Inr by (auto simp: delete_record_lock_def)
    next
      case True
      define pg' where "pg' = pg\<lparr>bitmap := bm_reset (bitmap pg) s, num_records := num_records pg - 1\<rparr>"
      define g where "g = (store_page f p pg')\<lparr>free_pageno_set := insort_insert p (free_pageno_set f)\<rparr>"
      have sr': "slot_in_range f (Rid p s)" using sr Rid by simp
      note rs = reset_slot_inv[OF inv pg sr' True, folded pg'_def, folded g_def]
      have absg: "heap_abs g = (heap_abs f)(Rid p s := None)" using rs by (simp add: g_def)
      have hdr: "same_hdr g f" by (simp add: g_def same_hdr_def store_page_def)
      have domg: "dom (pages g) = dom (pages f)" using pg by (auto simp: g_def store_page_def)
      have some: "heap_abs f rid \<noteq> None" using set_slot_abs[OF pg sr' True] Rid by simp
      have "(r = Inr () \<and> f' = g) \<or> (\<exists>e. r = Inl e \<and> f' = f)"
        using del Rid Inr True
        by (auto simp: delete_record_lock_def Let_def pg'_def g_def split: option.splits prod.splits sum.splits)
      moreover have "heap_inv g" using rs by (simp add: g_def)
      ultimately show ?thesis using absg hdr domg some inv Rid by auto
    qed
  qed
qed

lemma delete_record_is_locked: "delete_record rid ctx f = delete_record_lock rid True ctx f"
  by (simp add: delete_record_def delete_record_lock_def)

lemma delete_record_effect:
  assumes "heap_inv f" and "slot_in_range f rid" and "delete_record rid ctx f = (r, f', c')"
  shows "heap_inv f' \<and> same_hdr f' f \<and> dom (pages f') = dom (pages f) \<and> (\<forall>e. r = Inl e \<longrightarrow> f' = f) \<and>
    (r = Inr () \<longrightarrow> heap_abs f rid \<noteq> None \<and> heap_abs f' = (heap_abs f)(rid := None))"
  using delete_record_lock_effect[OF assms(1,2)] assms(3) by (simp add: delete_record_is_locked)


lemma put_slot_inv:
  assumes inv: "heap_inv f" and pg: "pages f p = Some pg" and sr: "slot_in_range f (Rid p s)"
    and set: "is_set (bitmap pg) s"
  shows "heap_inv (store_page f p (put_slot f pg s buf)) \<and>
         heap_abs (store_page f p (put_slot f pg s buf)) = (heap_abs f)(Rid p s \<mapsto> take (record_size f) buf)"
proof -
  have ok: "page_ok f p pg" using inv pg by (rule inv_page_ok)
  have len: "nat s < length (bitmap pg) \<and> nat s < length (slots pg)" using page_ok_len[OF ok sr] .
  have fs: "sorted (free_pageno_set f)" "distinct (free_pageno_set f)" "set (free_pageno_set f) \<subseteq> {1..<num_pages f}"
    using inv_free_set[OF inv] by auto
  have "heap_inv ((store_page f p (put_slot f pg s buf))\<lparr>free_pageno_set := free_pageno_set f\<rparr>)"
    by (rule heap_inv_store[OF inv]) (use pg fs ok in \<open>auto simp: page_ok_def store_page_def put_slot_def\<close>)
  moreover have "heap_abs (store_page f p (put_slot f pg s buf)) = (heap_abs f)(Rid p s \<mapsto> take (record_size f) buf)"
    by (subst heap_abs_store_page[OF pg sr]) (use len set in \<open>simp_all add: put_slot_def is_set_def get_slot_def\<close>)
  ultimately show ?thesis by (simp add: store_page_def)
qed

lemma update_record_lock_effect:
  assumes inv: "heap_inv f" and sr: "slot_in_range f rid" and upd: "update_record_lock rid buf b ctx f = (r, f', c')"
  shows "heap_inv f' \<and> same_hdr f' f \<and> (\<forall>e. r = Inl e \<longrightarrow> f' = f) \<and>
    (r = Inr () \<longrightarrow> heap_abs f rid \<noteq> None \<and> heap_abs f' = (heap_abs f)(rid \<mapsto> take (record_size f) buf))"
proof (cases rid)
  case (Rid p s)
  show ?thesis
  proof (cases "fetch_page_handle f p")
    case (Inl e)
    then show ?thesis using upd inv Rid by (auto simp: update_record_lock_def)
  next
    case (Inr pg)
    have pg: "pages f p = Some pg" using fetch_page_handle_Inr[OF Inr] .
    show ?thesis
    proof (cases "is_set (bitmap pg) s")
      case False
      then show ?thesis using upd inv Rid Inr by (auto simp: update_record_lock_def)
    next
      case True
      define g where "g = store_page f p (put_slot f pg s buf)"
      have sr': "slot_in_range f (Rid p s)" using sr Rid by simp
      note ps = put_slot_inv[OF inv pg sr' True, where buf = buf, folded g_def]
      have hdr: "same_hdr g f" by (simp add: g_def same_hdr_def store_page_def)
      have some: "heap_abs f rid \<noteq> None" using set_slot_abs[OF pg sr' True] Rid by simp
      have "(r = Inr () \<and> f' = g) \<or> (\<exists>e. r = Inl e \<and> f' = f)"
        using upd Rid Inr True
        by (auto simp: update_record_lock_def Let_def g_def split: option.splits prod.splits sum.splits)
      then show ?thesis using ps hdr some inv Rid by auto
    qed
  qed
qed

lemma update_record_is_locked: "update_record rid buf ctx f = update_record_lock rid buf True ctx f"
  unfolding update_record_def update_record_lock_def
  by (simp cong: sum.case_cong option.case_cong prod.case_cong if_cong)

lemma update_record_effect:
  assumes "heap_inv f" and "slot_in_range f rid" and "update_record rid buf ctx f = (r, f', c')"
  shows "heap_inv f' \<and> same_hdr f' f \<and> (\<forall>e. r = Inl e \<longrightarrow> f' = f) \<and>
    (r = Inr () \<longrightarrow> heap_abs f rid \<noteq> None \<and> heap_abs f' = (heap_abs f)(rid \<mapsto> take (record_size f) buf))"
  using update_record_lock_effect[OF assms(1,2)] assms(3) by (simp add: update_record_is_locked)

lemma insert_record_at_effect:
  assumes inv: "heap_inv f" and sr: "slot_in_range f rid" and ins: "insert_record_at rid buf f = (r, f')"
  shows "heap_inv f' \<and> same_hdr f' f \<and> (\<forall>e. r = Inl e \<longrightarrow> f' = f) \<and>
    (r = Inr () \<longrightarrow> heap_abs f rid = None \<and> heap_abs f' = (heap_abs f)(rid \<mapsto> take (record_size f) buf))"
proof (cases rid)
  case (Rid p s)
  show ?thesis
  proof (cases "fetch_page_handle f p")
    case (Inl e)
    then show ?thesis using ins inv Rid by (auto simp: insert_record_at_def)
  next
    case (Inr pg)
    have pg: "pages f p = Some pg" using fetch_page_handle_Inr[OF Inr] .
    have sr': "slot_in_range f (Rid p s)" using sr Rid by simp
    show ?thesis
    proof (cases "is_set (bitmap pg) s")
      case True
      then show ?thesis using ins inv Rid Inr by (auto simp: insert_record_at_def)
    next
      case False
      have rf: "r = Inr () \<and> f' = fill_slot f p pg s buf" using ins Rid Inr False by (simp add: insert_record_at_def)
      have "same_hdr f' f" using rf by (simp add: same_hdr_def fill_slot_def Let_def store_page_def put_slot_def)
      then show ?thesis
        using rf fill_slot_inv[OF inv pg sr' False] fill_slot_abs[OF pg sr' inv_page_ok[OF inv pg]]
          free_slot_abs_none[OF pg False] Rid by simp
    qed
  qed
qed

lemma next_bit_spec:
  "-1 \<le> c \<Longrightarrow>
   (next_bit v bm n c = n \<and> (\<forall>i. c < i \<and> i < n \<longrightarrow> bm ! nat i \<noteq> v)) \<or>
   (c < next_bit v bm n c \<and> next_bit v bm n c < n \<and> bm ! nat (next_bit v bm n c) = v \<and>
    (\<forall>i. c < i \<and> i < next_bit v bm n c \<longrightarrow> bm ! nat i \<noteq> v))"
proof (induction v bm n c rule: next_bit.induct)
  case (1 v bm n c)
  note def = next_bit.simps[of v bm n c]
  show ?case
  proof (cases "c + 1 < n")
    case lt: True
    show ?thesis
    proof (cases "bm ! nat (c + 1) = v")
      case True
      then show ?thesis using lt def by auto
    next
      case False
      have eq: "next_bit v bm n c = next_bit v bm n (c + 1)" using lt False def by simp
      have ih: "(next_bit v bm n (c + 1) = n \<and> (\<forall>i. c + 1 < i \<and> i < n \<longrightarrow> bm ! nat i \<noteq> v)) \<or>
          (c + 1 < next_bit v bm n (c + 1) \<and> next_bit v bm n (c + 1) < n \<and> bm ! nat (next_bit v bm n (c + 1)) = v \<and>
          (\<forall>i. c + 1 < i \<and> i < next_bit v bm n (c + 1) \<longrightarrow> bm ! nat i \<noteq> v))"
        using "1.IH"[OF lt] False "1.prems" by simp
      have step: "\<And>i. c < i \<Longrightarrow> \<not> c + 1 < i \<Longrightarrow> bm ! nat i \<noteq> v"
      proof -
        fix i :: int assume "c < i" "\<not> c + 1 < i"
        then have "i = c + 1" by simp
        then show "bm ! nat i \<noteq> v" using False by simp
      qed
      have all: "\<forall>i. c < i \<and> i < k \<longrightarrow> bm ! nat i \<noteq> v"
        if "\<forall>i. c + 1 < i \<and> i < k \<longrightarrow> bm ! nat i \<noteq> v" for k
        using that step by (metis linorder_not_le)
      from ih show ?thesis
      proof
        assume a: "next_bit v bm n (c + 1) = n \<and> (\<forall>i. c + 1 < i \<and> i < n \<longrightarrow> bm ! nat i \<noteq> v)"
        then show ?thesis using all[of n] by (simp add: eq)
      next
        assume a: "c + 1 < next_bit v bm n (c + 1) \<and> next_bit v bm n (c + 1) < n \<and>
          bm ! nat (next_bit v bm n (c + 1)) = v \<and>
          (\<forall>i. c + 1 < i \<and> i < next_bit v bm n (c + 1) \<longrightarrow> bm ! nat i \<noteq> v)"
        then show ?thesis using all[of "next_bit v bm n (c + 1)"] by (simp add: eq)
      qed
    qed
  next
    case False
    then show ?thesis using def by auto
  qed
qed


lemma inv_outside: "heap_inv f \<Longrightarrow> \<not> (1 \<le> q \<and> q < num_pages f) \<Longrightarrow> pages f q = None"
  unfolding heap_inv_def by auto

lemma heap_abs_occ:
  "heap_abs f r \<noteq> None \<longleftrightarrow>
     (\<exists>pg. pages f (rid_page_no r) = Some pg \<and> 0 \<le> rid_slot_no r \<and> rid_slot_no r < num_records_per_page f \<and>
        is_set (bitmap pg) (rid_slot_no r))"
  by (simp add: heap_abs_def split: option.split)

lemma rid_less_Rid: "rid_less (Rid p s) r \<longleftrightarrow> p < rid_page_no r \<or> (p = rid_page_no r \<and> s < rid_slot_no r)"
  by (auto simp: rid_less_def)

lemma scan_from_spec:
  "heap_inv f \<Longrightarrow> 1 \<le> p \<Longrightarrow> -1 \<le> s \<Longrightarrow>
   \<exists>res. scan_from f p s = Inr res \<and>
     (case res of
        None \<Rightarrow> (\<forall>r. rid_less (Rid p s) r \<longrightarrow> heap_abs f r = None)
      | Some r \<Rightarrow> rid_less (Rid p s) r \<and> heap_abs f r \<noteq> None \<and>
                 (\<forall>r'. rid_less (Rid p s) r' \<longrightarrow> rid_less r' r \<longrightarrow> heap_abs f r' = None))"
proof (induction f p s rule: scan_from.induct)
  case (1 f p s)
  note def = scan_from.simps[of f p s]
  show ?case
  proof (cases "p < num_pages f")
    case False
    have "heap_abs f r = None" if "rid_less (Rid p s) r" for r
    proof -
      have "num_pages f \<le> rid_page_no r" using that False by (auto simp: rid_less_Rid)
      then have "pages f (rid_page_no r) = None" using inv_outside[OF "1.prems"(1)] by simp
      then show ?thesis by (simp add: heap_abs_def)
    qed
    then show ?thesis using False def by simp
  next
    case lt: True
    obtain pg where pg: "pages f p = Some pg" using inv_page_exists[OF "1.prems"(1) "1.prems"(2) lt] by blast
    have fetch: "fetch_page_handle f p = Inr pg" using pg "1.prems"(2) by (simp add: fetch_page_handle_def INVALID_PAGE_ID_def)
    have len: "length (bitmap pg) = nat (num_records_per_page f)" using inv_page_ok[OF "1.prems"(1) pg] by (simp add: page_ok_def)
    let ?n = "num_records_per_page f"
    let ?ind = "next_bit True (bitmap pg) ?n s"
    have onpage: "heap_abs f (Rid p i) = None \<longleftrightarrow> \<not> (0 \<le> i \<and> i < ?n \<and> bitmap pg ! nat i)" for i
      using pg by (simp add: heap_abs_def is_set_def)
    note nb = next_bit_spec[OF "1.prems"(3), of True "bitmap pg" ?n]
    show ?thesis
    proof (cases "?ind = ?n")
      case True
      have none: "\<forall>i. s < i \<and> i < ?n \<longrightarrow> \<not> bitmap pg ! nat i" using nb True by auto
      have eq: "scan_from f p s = scan_from f (p + 1) (-1)" using def lt fetch True by simp
      obtain res where res: "scan_from f (p + 1) (-1) = Inr res" and spec: "case res of
          None \<Rightarrow> (\<forall>r. rid_less (Rid (p + 1) (-1)) r \<longrightarrow> heap_abs f r = None)
        | Some r \<Rightarrow> rid_less (Rid (p + 1) (-1)) r \<and> heap_abs f r \<noteq> None \<and>
                   (\<forall>r'. rid_less (Rid (p + 1) (-1)) r' \<longrightarrow> rid_less r' r \<longrightarrow> heap_abs f r' = None)"
        using "1.IH"[OF lt fetch _ True] "1.prems" by fastforce
      have split: "heap_abs f r = None \<or> rid_less (Rid (p + 1) (-1)) r" if "rid_less (Rid p s) r" for r
      proof (cases "rid_page_no r = p")
        case True
        then have "s < rid_slot_no r" using that by (auto simp: rid_less_Rid)
        then have "heap_abs f (Rid p (rid_slot_no r)) = None" using onpage none by auto
        then show ?thesis using True by (cases r) simp
      next
        case False
        then have "p + 1 \<le> rid_page_no r" using that by (auto simp: rid_less_Rid)
        moreover have "heap_abs f r = None \<or> 0 \<le> rid_slot_no r" by (simp add: heap_abs_def split: option.split)
        ultimately show ?thesis by (auto simp: rid_less_Rid)
      qed
      have up: "rid_less (Rid (p + 1) (-1)) r \<Longrightarrow> rid_less (Rid p s) r" for r by (auto simp: rid_less_Rid)
      show ?thesis
      proof (cases res)
        case None
        then show ?thesis using eq res spec split by fastforce
      next
        case (Some r)
        then show ?thesis using eq res spec split up by fastforce
      qed
    next
      case False
      have found: "s < ?ind \<and> ?ind < ?n \<and> bitmap pg ! nat ?ind \<and> (\<forall>i. s < i \<and> i < ?ind \<longrightarrow> \<not> bitmap pg ! nat i)"
        using nb False by auto
      have eq: "scan_from f p s = Inr (Some (Rid p ?ind))" using def lt fetch False by simp
      have occ: "heap_abs f (Rid p ?ind) \<noteq> None" using onpage found "1.prems"(3) by simp
      have minimal: "heap_abs f r' = None" if "rid_less (Rid p s) r'" "rid_less r' (Rid p ?ind)" for r'
      proof -
        have "rid_page_no r' = p \<and> s < rid_slot_no r' \<and> rid_slot_no r' < ?ind"
          using that by (cases r') (auto simp: rid_less_def split: if_splits)
        then have "heap_abs f (Rid p (rid_slot_no r')) = None" using onpage found by auto
        then show ?thesis using \<open>rid_page_no r' = p \<and> _\<close> by (cases r') simp
      qed
      show ?thesis using eq occ minimal found by (simp add: rid_less_Rid)
    qed
  qed
qed


lemma occ_slot_nonneg: "heap_abs f r \<noteq> None \<Longrightarrow> 0 \<le> rid_slot_no r"
  by (simp add: heap_abs_def split: option.splits if_splits)

lemma scan_rids_spec:
  "heap_inv f \<Longrightarrow> 1 \<le> p \<Longrightarrow> -1 \<le> s \<Longrightarrow>
   \<exists>rs. scan_rids f p s = Inr rs \<and> set rs = {r. rid_less (Rid p s) r \<and> heap_abs f r \<noteq> None} \<and>
     sorted_wrt rid_less rs"
proof (induction f p s rule: scan_rids.induct)
  case (1 f p s)
  note def = scan_rids.simps[of f p s]
  obtain res where res: "scan_from f p s = Inr res" and spec: "case res of
        None \<Rightarrow> (\<forall>r. rid_less (Rid p s) r \<longrightarrow> heap_abs f r = None)
      | Some r \<Rightarrow> rid_less (Rid p s) r \<and> heap_abs f r \<noteq> None \<and>
                 (\<forall>r'. rid_less (Rid p s) r' \<longrightarrow> rid_less r' r \<longrightarrow> heap_abs f r' = None)"
    using scan_from_spec[OF "1.prems"] by blast
  show ?case
  proof (cases res)
    case None
    then show ?thesis using def res spec by simp
  next
    case (Some r)
    have after: "rid_less (Rid p s) r" and occ: "heap_abs f r \<noteq> None"
      and least: "\<And>r'. rid_less (Rid p s) r' \<Longrightarrow> rid_less r' r \<Longrightarrow> heap_abs f r' = None"
      using spec Some by auto
    have pr: "1 \<le> rid_page_no r" using after "1.prems"(2) by (auto simp: rid_less_Rid)
    have sr: "-1 \<le> rid_slot_no r" using occ_slot_nonneg[OF occ] by simp
    obtain rs where rs: "scan_rids f (rid_page_no r) (rid_slot_no r) = Inr rs"
      and set_rs: "set rs = {r'. rid_less (Rid (rid_page_no r) (rid_slot_no r)) r' \<and> heap_abs f r' \<noteq> None}"
      and sorted_rs: "sorted_wrt rid_less rs"
      using "1.IH"[OF res Some "1.prems"(1) pr sr] by blast
    have rr: "Rid (rid_page_no r) (rid_slot_no r) = r" by (cases r) simp
    have eq: "scan_rids f p s = Inr (r # rs)" using def res Some rs by simp
    have "set (r # rs) = {r'. rid_less (Rid p s) r' \<and> heap_abs f r' \<noteq> None}"
    proof (rule set_eqI, rule iffI)
      fix r' assume "r' \<in> set (r # rs)"
      then show "r' \<in> {r'. rid_less (Rid p s) r' \<and> heap_abs f r' \<noteq> None}"
        using after occ set_rs rr by (auto intro: rid_less_trans)
    next
      fix r' assume r': "r' \<in> {r'. rid_less (Rid p s) r' \<and> heap_abs f r' \<noteq> None}"
      have "r' = r \<or> rid_less r r'"
      proof (rule ccontr)
        assume "\<not> (r' = r \<or> rid_less r r')"
        then have "rid_less r' r" using rid_less_total[of r' r] by auto
        then have "heap_abs f r' = None" using least r' by simp
        then show False using r' by simp
      qed
      then show "r' \<in> set (r # rs)" using r' set_rs rr by auto
    qed
    moreover have "sorted_wrt rid_less (r # rs)" using sorted_rs set_rs rr by simp
    ultimately show ?thesis using eq by blast
  qed
qed

lemma upgrade_first_holds:
  "list_ex (\<lambda>r. req_txn r = t) q \<Longrightarrow>
     \<exists>r0 \<in> set q. req_txn r0 = t \<and> r0\<lparr>req_mode := u (req_mode r0)\<rparr> \<in> set (upgrade_first t u q)"
proof (induction q)
  case (Cons r rs)
  show ?case
  proof (cases "req_txn r = t")
    case True then show ?thesis by simp
  next
    case False
    then obtain r0 where "r0 \<in> set rs" "req_txn r0 = t" "r0\<lparr>req_mode := u (req_mode r0)\<rparr> \<in> set (upgrade_first t u rs)"
      using Cons by auto
    then show ?thesis using False by auto
  qed
qed simp

lemma lock_exclusive_record_holds:
  assumes inv: "lt_inv lt" and ok: "lock_exclusive_on_record t rid d lt = Inr (t', lt')"
  shows "holds_lock lt' (txn_id t) (RecordLock d rid) EXLUCSIVE \<and> txn_id t' = txn_id t"
proof -
  let ?lid = "RecordLock d rid"
  let ?u = "\<lambda>m. if m = SHARED then EXLUCSIVE else m"
  have ok': "lock_on (\<lambda>m. True) ?u EXLUCSIVE ?lid t lt = Inr (t', lt')"
    using ok by (simp add: lock_exclusive_on_record_def)
  have ns: "txn_state t \<noteq> SHRINKING" using ok' by (auto simp: lock_on_def)
  show ?thesis
  proof (cases "lt ?lid")
    case None
    then have "t' = append_lock_set ?lid t \<and> lt' = lt(?lid \<mapsto> [\<lparr>req_txn = txn_id t, req_mode = EXLUCSIVE\<rparr>])"
      using ok' ns by (simp add: lock_on_def)
    then show ?thesis by (simp add: holds_lock_def append_lock_set_def)
  next
    case (Some q)
    have modes: "\<forall>r\<in>set q. req_mode r = SHARED \<or> req_mode r = EXLUCSIVE"
      using lt_invD[OF inv Some] by (simp add: queue_ok_def)
    have nc: "\<not> list_ex (\<lambda>r. req_txn r \<noteq> txn_id t) q"
    proof
      assume "list_ex (\<lambda>r. req_txn r \<noteq> txn_id t) q"
      then have "lock_on (\<lambda>m. True) ?u EXLUCSIVE ?lid t lt = Inl (txn_id t, DEADLOCK_PREVENTION)"
        using ns Some by (simp add: lock_on_def)
      then show False using ok' by simp
    qed
    show ?thesis
    proof (cases "list_ex (\<lambda>r. req_txn r = txn_id t) q")
      case True
      then obtain r0 where r0: "r0 \<in> set q" "req_txn r0 = txn_id t"
        and up: "r0\<lparr>req_mode := ?u (req_mode r0)\<rparr> \<in> set (upgrade_first (txn_id t) ?u q)"
        using upgrade_first_holds[OF True, where u = ?u] by blast
      have "req_mode r0 = SHARED \<or> req_mode r0 = EXLUCSIVE" using modes r0 by blast
      then have x: "?u (req_mode r0) = EXLUCSIVE" by auto
      have "lock_on (\<lambda>m. True) ?u EXLUCSIVE ?lid t lt = Inr (t, lt(?lid \<mapsto> upgrade_first (txn_id t) ?u q))"
        using ns Some nc True by (simp add: lock_on_def)
      then have "t' = t \<and> lt' = lt(?lid \<mapsto> upgrade_first (txn_id t) ?u q)" using ok' by simp
      moreover have "r0\<lparr>req_mode := EXLUCSIVE\<rparr> \<in> set (upgrade_first (txn_id t) ?u q)" using up x by simp
      ultimately show ?thesis using r0
        by (auto simp: holds_lock_def list_ex_iff intro!: bexI[of _ "r0\<lparr>req_mode := EXLUCSIVE\<rparr>"])
    next
      case False
      have "lock_on (\<lambda>m. True) ?u EXLUCSIVE ?lid t lt =
          Inr (append_lock_set ?lid t, lt(?lid \<mapsto> q @ [\<lparr>req_txn = txn_id t, req_mode = EXLUCSIVE\<rparr>]))"
        using ns Some nc False by (simp add: lock_on_def)
      then have "t' = append_lock_set ?lid t \<and> lt' = lt(?lid \<mapsto> q @ [\<lparr>req_txn = txn_id t, req_mode = EXLUCSIVE\<rparr>])"
        using ok' by simp
      then show ?thesis by (simp add: holds_lock_def append_lock_set_def list_ex_iff)
    qed
  qed
qed

lemma insert_record_at_ok:
  assumes inv: "heap_inv f" and sr: "slot_in_range f rid" and pg: "pages f (rid_page_no rid) \<noteq> None"
    and free: "heap_abs f rid = None"
  shows "\<exists>f'. insert_record_at rid buf f = (Inr (), f')"
proof -
  obtain pg where pg: "pages f (rid_page_no rid) = Some pg" using pg by blast
  have "rid_page_no rid \<noteq> INVALID_PAGE_ID" using inv_dom[OF inv pg] by (simp add: INVALID_PAGE_ID_def)
  then have "fetch_page_handle f (rid_page_no rid) = Inr pg" using pg by (simp add: fetch_page_handle_def)
  moreover have "\<not> is_set (bitmap pg) (rid_slot_no rid)"
    using free pg sr by (simp add: heap_abs_def slot_in_range_def split: if_splits)
  ultimately show ?thesis by (simp add: insert_record_at_def)
qed

lemma heap_abs_take: "heap_abs f rid = Some v \<Longrightarrow> take (record_size f) v = v"
  by (auto simp: heap_abs_def split: option.splits if_splits)

lemma demo_file_inv: "heap_inv demo_file"
  unfolding heap_inv_def
proof (intro conjI allI impI)
  fix p
  show "(pages demo_file p \<noteq> None) = (1 \<le> p \<and> p < num_pages demo_file)"
    by (simp add: demo_file_def)
next
  fix p pg assume "pages demo_file p = Some pg"
  then have "(p = 1 \<and> pg = \<lparr>num_records = 2, bitmap = [True, True], slots = [[1, 1], [2, 2]]\<rparr>) \<or>
             (p = 2 \<and> pg = \<lparr>num_records = 1, bitmap = [True, False], slots = [[3, 3], [0, 0]]\<rparr>)"
    by (simp add: demo_file_def split: if_splits)
  then show "page_ok demo_file p pg" by (auto simp: page_ok_def demo_file_def)
qed (simp_all add: demo_file_def)

lemmas heap_eval = insert_record_def create_page_handle_def fetch_page_handle_def INVALID_PAGE_ID_def first_bit_def
  opt_lock_def fill_slot_def put_slot_def bm_set_def bm_reset_def store_page_def is_set_def get_slot_def
  delete_record_def update_record_def insert_record_at_def get_record_def ctx_pre_image_def Let_def

theorem heap_step_preserves_inv:
  assumes inv: "heap_inv f" and ok: "op_ok f op" and st: "heap_step op ctx f = (r, f', c')"
  shows "heap_inv f'"
proof (cases op)
  case (OpInsert buf)
  obtain r0 where "insert_record buf ctx f = (r0, f', c')" using st OpInsert by (auto split: prod.splits)
  then show ?thesis using insert_record_effect[OF inv] by blast
next
  case (OpInsertAt rid buf)
  obtain r0 where "insert_record_at rid buf f = (r0, f')" using st OpInsertAt by (auto split: prod.splits)
  then show ?thesis using insert_record_at_effect[OF inv] ok OpInsertAt by auto
next
  case (OpDelete rid)
  obtain r0 where "delete_record rid ctx f = (r0, f', c')" using st OpDelete by (auto split: prod.splits)
  then show ?thesis using delete_record_effect[OF inv] ok OpDelete by auto
next
  case (OpUpdate rid buf)
  obtain r0 where "update_record rid buf ctx f = (r0, f', c')" using st OpUpdate by (auto split: prod.splits)
  then show ?thesis using update_record_effect[OF inv] ok OpUpdate by auto
next
  case (OpDeleteLock rid b)
  obtain r0 where "delete_record_lock rid b ctx f = (r0, f', c')" using st OpDeleteLock by (auto split: prod.splits)
  then show ?thesis using delete_record_lock_effect[OF inv] ok OpDeleteLock by auto
next
  case (OpUpdateLock rid buf b)
  obtain r0 where "update_record_lock rid buf b ctx f = (r0, f', c')" using st OpUpdateLock by (auto split: prod.splits)
  then show ?thesis using update_record_lock_effect[OF inv] ok OpUpdateLock by auto
next
  case (OpAllocPage rid)
  then show ?thesis using st allocpage_inv[OF inv] by auto
qed

theorem heap_step_preserves_inv_witness:
  "heap_inv (fst (snd (heap_step (OpDelete (Rid 1 0)) None demo_file)))"
  using heap_step_preserves_inv[of demo_file "OpDelete (Rid 1 0)" None "fst (heap_step (OpDelete (Rid 1 0)) None demo_file)"
      "fst (snd (heap_step (OpDelete (Rid 1 0)) None demo_file))" "snd (snd (heap_step (OpDelete (Rid 1 0)) None demo_file))"]
    demo_file_inv
  by (simp add: slot_in_range_def demo_file_def)


text \<open>C24. A successful insert_record puts the record into a slot that held no record, and the file then stores exactly what it stored before plus that record.\<close>

theorem insert_record_refines:
  assumes "heap_inv f" and "insert_record buf ctx f = (Inr rid, f', c')"
  shows "heap_abs f rid = None \<and> heap_abs f' = (heap_abs f)(rid \<mapsto> take (record_size f) buf)"
  using insert_record_effect[OF assms] by blast

theorem insert_record_refines_witness:
  "heap_abs (fst (snd (insert_record [5, 5] None demo_file))) = (heap_abs demo_file)(Rid 2 1 \<mapsto> [5, 5])"
  using insert_record_refines[of demo_file "[5, 5]" None "Rid 2 1" "fst (snd (insert_record [5, 5] None demo_file))"
      "snd (snd (insert_record [5, 5] None demo_file))"] demo_file_inv
  by (simp add: heap_eval demo_file_def)

text \<open>C25. Without a transaction context, insert_record on a well-formed file always
  returns a rid, and that rid is the right one: on the first page of the hint set, or
  on a new page numbered \<open>num_pages\<close> when the set is empty, at the first free slot
  of that page (every slot before it holds a record); the slot held no record, the file
  then stores exactly what it stored before plus the record, and stays well formed.\<close>

theorem insert_record_succeeds:
  assumes inv: "heap_inv f"
  shows "\<exists>rid f'. insert_record buf None f = (Inr rid, f', None) \<and> heap_inv f' \<and>
           heap_abs f rid = None \<and> heap_abs f' = (heap_abs f)(rid \<mapsto> take (record_size f) buf) \<and>
           rid_page_no rid = (if free_pageno_set f = [] then num_pages f else hd (free_pageno_set f)) \<and>
           list_all (\<lambda>s. heap_abs f (Rid (rid_page_no rid) (int s)) \<noteq> None) [0..<nat (rid_slot_no rid)]"
proof -
  obtain cr f1 where cp: "create_page_handle f = (cr, f1)" by fastforce
  obtain p pg where cr: "cr = Inr (p, pg)" and pg: "pages f1 p = Some pg" and ok: "page_ok f1 p pg"
    and lt: "num_records pg < num_records_per_page f1" and abs1: "heap_abs f1 = heap_abs f"
    using create_page_handle_ok[OF inv cp] by blast
  define sl where "sl = first_bit False (bitmap pg) (num_records_per_page f1)"
  define f' where "f' = fill_slot f1 p pg sl buf"
  have ins: "insert_record buf None f = (Inr (Rid p sl), f', None)"
    using cp cr by (simp add: insert_record_def opt_lock_def sl_def f'_def Let_def)
  note E = insert_record_effect[OF inv ins]
  have page: "p = (if free_pageno_set f = [] then num_pages f else hd (free_pageno_set f))"
    using create_page_handle_page cp cr by simp
  have rng: "slot_in_range f1 (Rid p sl)" using first_bit_page[OF ok lt] by (simp add: sl_def)
  have "heap_abs f (Rid p (int s)) \<noteq> None" if s: "s < nat sl" for s
  proof -
    have set: "is_set (bitmap pg) (int s)" using first_bit_below_set[OF s[unfolded sl_def]] by (simp add: is_set_def)
    have "int s < sl" using s by (simp add: zless_nat_eq_int_zless)
    then have "int s < num_records_per_page f1" using rng by (simp add: slot_in_range_def)
    then have "heap_abs f1 (Rid p (int s)) \<noteq> None" using pg set by (simp add: heap_abs_def)
    then show ?thesis using abs1 by simp
  qed
  then have first: "list_all (\<lambda>s. heap_abs f (Rid p (int s)) \<noteq> None) [0..<nat sl]"
    by (simp add: list_all_iff)
  show ?thesis using ins E page first by (intro exI[of _ "Rid p sl"] exI[of _ f']) simp
qed

theorem insert_record_succeeds_witness:
  "\<exists>f'. insert_record [9, 9] None demo_file = (Inr (Rid 2 1), f', None) \<and>
     heap_abs f' (Rid 2 1) = Some [9, 9] \<and> heap_inv f'"
proof -
  obtain rid f' where r: "insert_record [9, 9] None demo_file = (Inr rid, f', None)" and i: "heap_inv f'"
      and a: "heap_abs f' = (heap_abs demo_file)(rid \<mapsto> take (record_size demo_file) [9, 9])"
    using insert_record_succeeds[OF demo_file_inv, of "[9, 9]"] by blast
  have "insert_record [9, 9] None demo_file = (Inr (Rid 2 1), fst (snd (insert_record [9, 9] None demo_file)), None)"
    by (simp add: heap_eval demo_file_def)
  then have "rid = Rid 2 1" using r by simp
  then show ?thesis using r i a by (simp add: demo_file_def)
qed

text \<open>C26. A successful delete_record removes the record at an occupied rid and changes nothing else the file stores.\<close>

theorem delete_record_refines:
  assumes "heap_inv f" and "slot_in_range f rid" and "delete_record rid ctx f = (Inr (), f', c')"
  shows "heap_abs f rid \<noteq> None \<and> heap_abs f' = (heap_abs f)(rid := None)"
  using delete_record_effect[OF assms] by blast

theorem delete_record_refines_witness:
  "heap_abs (fst (snd (delete_record (Rid 1 0) None demo_file))) = (heap_abs demo_file)(Rid 1 0 := None)"
  using delete_record_refines[of demo_file "Rid 1 0" None "fst (snd (delete_record (Rid 1 0) None demo_file))"
      "snd (snd (delete_record (Rid 1 0) None demo_file))"] demo_file_inv
  by (simp add: heap_eval demo_file_def slot_in_range_def)

text \<open>C27. A successful update_record overwrites the record at an occupied rid and changes nothing else the file stores.\<close>

theorem update_record_refines:
  assumes "heap_inv f" and "slot_in_range f rid" and "update_record rid buf ctx f = (Inr (), f', c')"
  shows "heap_abs f rid \<noteq> None \<and> heap_abs f' = (heap_abs f)(rid \<mapsto> take (record_size f) buf)"
  using update_record_effect[OF assms] by blast

theorem update_record_refines_witness:
  "heap_abs (fst (snd (update_record (Rid 2 0) [4, 4] None demo_file))) = (heap_abs demo_file)(Rid 2 0 \<mapsto> [4, 4])"
  using update_record_refines[of demo_file "Rid 2 0" "[4, 4]" None "fst (snd (update_record (Rid 2 0) [4, 4] None demo_file))"
      "snd (snd (update_record (Rid 2 0) [4, 4] None demo_file))"] demo_file_inv
  by (simp add: heap_eval demo_file_def slot_in_range_def)

text \<open>C28. Rolling back a delete by insert_record at the same rid with the deleted image (what the transaction manager and recovery do) succeeds and restores the file contents.\<close>

theorem delete_rollback_restores:
  assumes inv: "heap_inv f" and sr: "slot_in_range f rid" and v: "heap_abs f rid = Some v"
    and del: "delete_record rid ctx f = (Inr (), f', c')"
  shows "\<exists>f''. insert_record_at rid v f' = (Inr (), f'') \<and> heap_abs f'' = heap_abs f"
proof -
  note d = delete_record_effect[OF inv sr del]
  have inv': "heap_inv f'" and hdr: "same_hdr f' f" and absd: "heap_abs f' = (heap_abs f)(rid := None)"
    and dom: "dom (pages f') = dom (pages f)" using d by auto
  have sr': "slot_in_range f' rid" using sr hdr by (simp add: slot_in_range_def same_hdr_def)
  have "pages f (rid_page_no rid) \<noteq> None" using v by (auto simp: heap_abs_def split: option.splits)
  then have pg: "pages f' (rid_page_no rid) \<noteq> None" using dom by auto
  obtain f'' where ins: "insert_record_at rid v f' = (Inr (), f'')"
    using insert_record_at_ok[OF inv' sr' pg] absd by auto
  have "heap_abs f'' = (heap_abs f')(rid \<mapsto> take (record_size f') v)"
    using insert_record_at_effect[OF inv' sr' ins] by blast
  also have "\<dots> = heap_abs f" using absd hdr heap_abs_take[OF v] v by (auto simp: same_hdr_def fun_eq_iff)
  finally show ?thesis using ins by blast
qed

theorem delete_rollback_restores_witness:
  "\<exists>f''. insert_record_at (Rid 1 0) [1, 1] (fst (snd (delete_record (Rid 1 0) None demo_file))) = (Inr (), f'') \<and>
     heap_abs f'' = heap_abs demo_file"
  using delete_rollback_restores[of demo_file "Rid 1 0" "[1, 1]" None "fst (snd (delete_record (Rid 1 0) None demo_file))"
      "snd (snd (delete_record (Rid 1 0) None demo_file))"] demo_file_inv
  by (simp add: heap_eval demo_file_def slot_in_range_def heap_abs_def)


text \<open>C29. delete_record and update_record on a free slot of an existing page fail their assertion and change neither the file nor the context.\<close>

theorem free_slot_asserts:
  assumes inv: "heap_inv f" and sr: "slot_in_range f rid" and pg: "pages f (rid_page_no rid) \<noteq> None"
    and free: "heap_abs f rid = None"
  shows "delete_record rid ctx f = (Inl RmAssertFailure, f, ctx) \<and>
         update_record rid buf ctx f = (Inl RmAssertFailure, f, ctx)"
proof -
  obtain pg where pg: "pages f (rid_page_no rid) = Some pg" using pg by blast
  have "rid_page_no rid \<noteq> INVALID_PAGE_ID" using inv_dom[OF inv pg] by (simp add: INVALID_PAGE_ID_def)
  then have "fetch_page_handle f (rid_page_no rid) = Inr pg" using pg by (simp add: fetch_page_handle_def)
  moreover have "\<not> is_set (bitmap pg) (rid_slot_no rid)"
    using free pg sr by (simp add: heap_abs_def slot_in_range_def split: if_splits)
  ultimately show ?thesis by (simp add: delete_record_def update_record_def)
qed

theorem free_slot_asserts_witness:
  "delete_record (Rid 2 1) None demo_file = (Inl RmAssertFailure, demo_file, None) \<and>
   update_record (Rid 2 1) [0, 0] None demo_file = (Inl RmAssertFailure, demo_file, None)"
  using free_slot_asserts[of demo_file "Rid 2 1" None "[0, 0]"] demo_file_inv
  by (simp add: demo_file_def slot_in_range_def heap_abs_def is_set_def)

lemma opt_lock_Some:
  "opt_lock req (Some c) = Inr ctx1 \<Longrightarrow>
     \<exists>t' lt'. req (ctx_txn c) (ctx_locks c) = Inr (t', lt') \<and> ctx1 = Some (c\<lparr>ctx_txn := t', ctx_locks := lt'\<rparr>)"
  by (auto simp: opt_lock_def ctx_lock_def split: sum.splits prod.splits)

text \<open>C30. An insert under a transaction leaves the transaction holding an exclusive lock on the new rid, appends one INSERT_TUPLE write record with the stored image, and appends one insert log record with the next lsn.\<close>

theorem insert_record_locks_and_logs:
  assumes inv: "heap_inv f" and lk: "lt_inv (ctx_locks c)"
    and ins: "insert_record buf (Some c) f = (Inr rid, f', c')"
  shows "\<exists>c2. c' = Some c2 \<and> holds_lock (ctx_locks c2) (ctx_tid c) (RecordLock (fd f) rid) EXLUCSIVE \<and>
     ctx_writes c2 = ctx_writes c @
       [\<lparr>wr_type = INSERT_TUPLE, wr_tab_name = file_name f, wr_rid = rid, wr_record = take (record_size f) buf\<rparr>] \<and>
     all_records (ctx_log c2) = all_records (ctx_log c) @
       [\<lparr>lr_lsn = global_lsn (ctx_log c), lr_tid = ctx_tid c, lr_prev_lsn = INVALID_LSN,
         payload = InsertLog (take (record_size f) buf) rid (file_name f)\<rparr>]"
proof -
  obtain cr f1 where cp: "create_page_handle f = (cr, f1)" by fastforce
  obtain p pg where cr: "cr = Inr (p, pg)" and hdr: "same_hdr f1 f" using create_page_handle_ok[OF inv cp] by blast
  define s where "s = first_bit False (bitmap pg) (num_records_per_page f1)"
  obtain ctx1 where ol: "opt_lock (\<lambda>t. lock_exclusive_on_record t (Rid p s) (fd f1)) (Some c) = Inr ctx1"
    and r: "rid = Rid p s"
    and c': "c' = map_option (\<lambda>c. log_with (add_insert_log_record (ctx_tid c) (take (record_size f1) buf) (Rid p s) (file_name f1))
        (append_write_record \<lparr>wr_type = INSERT_TUPLE, wr_tab_name = file_name f1, wr_rid = Rid p s,
          wr_record = take (record_size f1) buf\<rparr> c)) ctx1"
    using ins cp cr by (auto simp: insert_record_def s_def[symmetric] Let_def split: sum.splits)
  obtain t' lt' where lock: "lock_exclusive_on_record (ctx_txn c) (Rid p s) (fd f1) (ctx_locks c) = Inr (t', lt')"
    and ctx1: "ctx1 = Some (c\<lparr>ctx_txn := t', ctx_locks := lt'\<rparr>)" using opt_lock_Some[OF ol] by blast
  have h: "holds_lock lt' (txn_id (ctx_txn c)) (RecordLock (fd f1) (Rid p s)) EXLUCSIVE \<and> txn_id t' = txn_id (ctx_txn c)"
    using lock_exclusive_record_holds[OF lk lock] .
  show ?thesis using c' ctx1 h hdr r
    by (simp add: same_hdr_def log_with_def append_write_record_def ctx_tid_def add_insert_log_record_def
        add_log_record_records)
qed

theorem insert_record_locks_and_logs_witness:
  "\<exists>c2. snd (snd (insert_record [5, 5] (Some demo_ctx) demo_file)) = Some c2 \<and>
     holds_lock (ctx_locks c2) 1 (RecordLock 7 (Rid 2 1)) EXLUCSIVE"
  using insert_record_locks_and_logs[of demo_file demo_ctx "[5, 5]" "Rid 2 1"
      "fst (snd (insert_record [5, 5] (Some demo_ctx) demo_file))" "snd (snd (insert_record [5, 5] (Some demo_ctx) demo_file))"]
    demo_file_inv
  by (simp add: heap_eval demo_file_def demo_ctx_def lt_inv_def ctx_lock_def lock_exclusive_on_record_def lock_on_def
      demo_txn_def ctx_tid_def)


text \<open>C31. The executors scan loop (RmScan constructor, then next until the end) returns, on a well-formed file, exactly the rids of the stored records, in increasing (page, slot) order.\<close>

theorem scan_lists_records_in_order:
  assumes "heap_inv f"
  shows "\<exists>rs. rm_scan_all f = Inr rs \<and> set rs = dom (heap_abs f) \<and> sorted_wrt rid_less rs"
proof -
  obtain rs where rs: "scan_rids f 1 (-1) = Inr rs"
    and set_rs: "set rs = {r. rid_less (Rid 1 (-1)) r \<and> heap_abs f r \<noteq> None}" and srt: "sorted_wrt rid_less rs"
    using scan_rids_spec[OF assms, of 1 "-1"] by auto
  have "{r. rid_less (Rid 1 (-1)) r \<and> heap_abs f r \<noteq> None} = dom (heap_abs f)"
  proof (rule set_eqI, rule iffI)
    fix r assume "r \<in> dom (heap_abs f)"
    then obtain pg where "pages f (rid_page_no r) = Some pg" and "0 \<le> rid_slot_no r" and "heap_abs f r \<noteq> None"
      by (auto simp: heap_abs_def split: option.splits if_splits)
    moreover have "1 \<le> rid_page_no r" using inv_dom[OF assms \<open>pages f (rid_page_no r) = Some pg\<close>] by simp
    ultimately show "r \<in> {r. rid_less (Rid 1 (-1)) r \<and> heap_abs f r \<noteq> None}" by (auto simp: rid_less_Rid)
  qed auto
  then show ?thesis using rs set_rs srt by (simp add: rm_scan_all_def)
qed

theorem scan_lists_records_in_order_witness:
  "\<exists>rs. rm_scan_all demo_file = Inr rs \<and> set rs = dom (heap_abs demo_file) \<and> sorted_wrt rid_less rs"
  using scan_lists_records_in_order[OF demo_file_inv] .

lemma next_bit_bounds: "next_bit v bm n c \<noteq> n \<Longrightarrow> c < next_bit v bm n c \<and> next_bit v bm n c < n"
proof (induction v bm n c rule: next_bit.induct)
  case (1 v bm n c)
  show ?case
  proof (cases "c + 1 < n")
    case True
    then show ?thesis
    proof (cases "bm ! nat (c + 1) = v")
      case False
      then have "next_bit v bm n c = next_bit v bm n (c + 1)" using True by (simp add: next_bit.simps[of v bm n c])
      then show ?thesis using "1.IH"[OF True False] "1.prems" by simp
    qed (simp add: next_bit.simps[of v bm n c])
  qed (use "1.prems" in \<open>simp add: next_bit.simps[of v bm n c]\<close>)
qed

text \<open>C32. Each step of RmScan::next moves strictly forward to a rid within the file, which is why the scan loop ends.\<close>

theorem scan_next_advances:
  assumes "scan_from f p s = Inr (Some r)"
  shows "rid_less (Rid p s) r \<and> rid_page_no r < num_pages f \<and> rid_slot_no r < num_records_per_page f"
  using assms
proof (induction f p s rule: scan_from.induct)
  case (1 f p s)
  note def = scan_from.simps[of f p s]
  show ?case
  proof (cases "p < num_pages f")
    case lt: True
    then obtain pg where pg: "fetch_page_handle f p = Inr pg"
      using "1.prems" def by (cases "fetch_page_handle f p") simp_all
    show ?thesis
    proof (cases "next_bit True (bitmap pg) (num_records_per_page f) s = num_records_per_page f")
      case True
      then show ?thesis using "1.IH"[OF lt pg] "1.prems" lt pg def by (auto simp: rid_less_Rid)
    next
      case False
      then show ?thesis using "1.prems" lt pg def next_bit_bounds[OF False]
        by (auto simp: rid_less_Rid)
    qed
  qed (use "1.prems" def in simp)
qed

theorem scan_next_advances_witness:
  "rid_less (Rid 1 1) (Rid 2 0) \<and> rid_page_no (Rid 2 0) < num_pages demo_file \<and>
   rid_slot_no (Rid 2 0) < num_records_per_page demo_file"
  using scan_next_advances[of demo_file 1 1 "Rid 2 0"]
  by (simp add: demo_file_def scan_from.simps next_bit.simps fetch_page_handle_def INVALID_PAGE_ID_def)

text \<open>get_record does not consult the bitmap: after a record is deleted, get_record at its rid still returns the deleted bytes instead of failing.\<close>

theorem deleted_record_still_readable:
  assumes inv: "heap_inv f" and sr: "slot_in_range f rid" and v: "heap_abs f rid = Some v"
    and del: "delete_record rid None f = (Inr (), f', c')"
  shows "heap_abs f' rid = None \<and> get_record rid None f' = (Inr v, None)"
proof (cases rid)
  case (Rid p s)
  obtain pg where pg: "pages f p = Some pg" using v Rid by (auto simp: heap_abs_def split: option.splits)
  have set: "is_set (bitmap pg) s" and vv: "v = take (record_size f) (get_slot pg s)"
    using v pg Rid by (auto simp: heap_abs_def split: if_splits)
  have fetch: "fetch_page_handle f p = Inr pg" using pg inv_dom[OF inv pg] by (simp add: fetch_page_handle_def INVALID_PAGE_ID_def)
  define pg' where "pg' = pg\<lparr>bitmap := bm_reset (bitmap pg) s, num_records := num_records pg - 1\<rparr>"
  have f': "f' = (store_page f p pg')\<lparr>free_pageno_set := insort_insert p (free_pageno_set f)\<rparr>"
    using del Rid fetch set by (simp add: delete_record_def Let_def pg'_def)
  have "get_record rid None f' = (Inr v, None)"
    using Rid inv_dom[OF inv pg] vv
    by (simp add: f' get_record_def opt_lock_def fetch_page_handle_def INVALID_PAGE_ID_def store_page_def pg'_def get_slot_def)
  moreover have "heap_abs f' rid = None" using delete_record_effect[OF inv sr del] by simp
  ultimately show ?thesis by simp
qed

theorem deleted_record_still_readable_witness:
  "heap_abs (fst (snd (delete_record (Rid 1 0) None demo_file))) (Rid 1 0) = None \<and>
   get_record (Rid 1 0) None (fst (snd (delete_record (Rid 1 0) None demo_file))) = (Inr [1, 1], None)"
  using deleted_record_still_readable[of demo_file "Rid 1 0" "[1, 1]" "fst (snd (delete_record (Rid 1 0) None demo_file))"
      "snd (snd (delete_record (Rid 1 0) None demo_file))"] demo_file_inv
  by (simp add: heap_eval demo_file_def slot_in_range_def heap_abs_def)


lemma ctx_pre_image_Inr:
  assumes "ctx_pre_image b w rid f c = (Inr r, c1)"
  shows "\<exists>c2 pg. c1 = Some (append_write_record \<lparr>wr_type = w, wr_tab_name = file_name f, wr_rid = rid, wr_record = r\<rparr> c2) \<and>
    ctx_log c2 = ctx_log c \<and> ctx_writes c2 = ctx_writes c \<and>
    fetch_page_handle f (rid_page_no rid) = Inr pg \<and> r = take (record_size f) (get_slot pg (rid_slot_no rid))"
  using assms
  by (auto simp: ctx_pre_image_def get_record_def opt_lock_def ctx_lock_def
      split: sum.splits prod.splits option.splits if_splits)

text \<open>C34. The overload \<open>update_record(rid, buf, false, context)\<close>, which the update
  executor calls for every row of an update touching more than one row, overwrites the
  record and records the pre-image in the write set, but appends no log record: the
  write-ahead log never sees these updates.\<close>

theorem update_without_lock_skips_log:
  assumes inv: "heap_inv f" and sr: "slot_in_range f rid"
    and upd: "update_record_lock rid buf False (Some c) f = (Inr (), f', c')"
  shows "\<exists>c2 old. c' = Some c2 \<and> ctx_log c2 = ctx_log c \<and> heap_abs f rid = Some old \<and>
     ctx_writes c2 = ctx_writes c @ [\<lparr>wr_type = UPDATE_TUPLE, wr_tab_name = file_name f, wr_rid = rid, wr_record = old\<rparr>] \<and>
     heap_abs f' = (heap_abs f)(rid \<mapsto> take (record_size f) buf)"
proof -
  note eff = update_record_lock_effect[OF inv sr upd]
  obtain old c1 where pre: "ctx_pre_image False UPDATE_TUPLE rid f c = (Inr old, c1)" and c': "c' = c1"
    using upd by (auto simp: update_record_lock_def Let_def split: sum.splits if_splits prod.splits)
  obtain c2 pg where c1: "c1 = Some (append_write_record
        \<lparr>wr_type = UPDATE_TUPLE, wr_tab_name = file_name f, wr_rid = rid, wr_record = old\<rparr> c2)"
    and lg: "ctx_log c2 = ctx_log c" and ws: "ctx_writes c2 = ctx_writes c"
    and pg: "fetch_page_handle f (rid_page_no rid) = Inr pg" and old: "old = take (record_size f) (get_slot pg (rid_slot_no rid))"
    using ctx_pre_image_Inr[OF pre] by blast
  have "heap_abs f rid \<noteq> None" using eff by simp
  then have "heap_abs f rid = Some old"
    using fetch_page_handle_Inr[OF pg] old by (auto simp: heap_abs_def split: if_splits)
  then show ?thesis using c' c1 lg ws eff by (simp add: append_write_record_def)
qed

theorem update_without_lock_skips_log_witness:
  "\<exists>c2 old. snd (snd (update_record_lock (Rid 2 0) [4, 4] False (Some demo_ctx) demo_file)) = Some c2 \<and>
     ctx_log c2 = ctx_log demo_ctx \<and> heap_abs demo_file (Rid 2 0) = Some old \<and>
     ctx_writes c2 = ctx_writes demo_ctx @
       [\<lparr>wr_type = UPDATE_TUPLE, wr_tab_name = file_name demo_file, wr_rid = Rid 2 0, wr_record = old\<rparr>] \<and>
     heap_abs (fst (snd (update_record_lock (Rid 2 0) [4, 4] False (Some demo_ctx) demo_file))) =
       (heap_abs demo_file)(Rid 2 0 \<mapsto> take (record_size demo_file) [4, 4])"
  using update_without_lock_skips_log[of demo_file "Rid 2 0" "[4, 4]" demo_ctx
      "fst (snd (update_record_lock (Rid 2 0) [4, 4] False (Some demo_ctx) demo_file))"
      "snd (snd (update_record_lock (Rid 2 0) [4, 4] False (Some demo_ctx) demo_file))"] demo_file_inv
  by (simp add: heap_eval update_record_lock_def demo_file_def demo_ctx_def slot_in_range_def ctx_lock_def
      lock_shared_on_record_def lock_on_def demo_txn_def)


text \<open>C35. Bulk loading through \<open>insert_record_for_load_data\<close>, started on a page with a
  free slot, stores each record in a slot that was free, changes nothing else the file
  stores, keeps the file well formed, and leaves the page handle on a page that again
  has a free slot, so the next call can proceed.\<close>

theorem load_data_refines:
  assumes inv: "heap_inv f" and pg: "pages f p = Some pg" and nf: "num_records pg < num_records_per_page f"
    and ld: "insert_record_for_load_data buf p f = (r, f')"
  shows "heap_inv f' \<and> (\<exists>rid p' pg'. r = Inr (rid, p') \<and> heap_abs f rid = None \<and>
     heap_abs f' = (heap_abs f)(rid \<mapsto> take (record_size f) buf) \<and>
     pages f' p' = Some pg' \<and> num_records pg' < num_records_per_page f')"
proof -
  have ok: "page_ok f p pg" using inv pg by (rule inv_page_ok)
  define s where "s = first_bit False (bitmap pg) (num_records_per_page f)"
  have sl: "slot_in_range f (Rid p s)" and fr: "\<not> is_set (bitmap pg) s"
    using first_bit_page[OF ok nf] by (simp_all add: s_def)
  define f2 where "f2 = fill_slot f p pg s buf"
  have inv2: "heap_inv f2" using fill_slot_inv[OF inv pg sl fr] by (simp add: f2_def)
  have abs2: "heap_abs f2 = (heap_abs f)(Rid p s \<mapsto> take (record_size f) buf)"
    using fill_slot_abs[OF pg sl ok] by (simp add: f2_def)
  have none: "heap_abs f (Rid p s) = None" using free_slot_abs_none[OF pg fr] .
  have hdr2: "same_hdr f2 f" by (simp add: f2_def same_hdr_def fill_slot_def Let_def store_page_def put_slot_def)
  show ?thesis
  proof (cases "num_records pg + 1 = num_records_per_page f")
    case full: True
    obtain cr f3 where cp: "create_page_handle f2 = (cr, f3)" by fastforce
    obtain p' pg' where cr: "cr = Inr (p', pg')" and inv3: "heap_inv f3" and pg': "pages f3 p' = Some pg'"
      and nf': "num_records pg' < num_records_per_page f3" and abs3: "heap_abs f3 = heap_abs f2"
      using create_page_handle_ok[OF inv2 cp] by blast
    have "r = Inr (Rid p s, p') \<and> f' = f3"
      using ld pg full cp cr by (simp add: insert_record_for_load_data_def s_def[symmetric] f2_def[symmetric] Let_def)
    then show ?thesis using inv3 pg' nf' abs3 abs2 none by auto
  next
    case False
    have pg2: "pages f2 p = Some ((put_slot f pg s buf)\<lparr>bitmap := bm_set (bitmap pg) s, num_records := num_records pg + 1\<rparr>)"
      using False by (simp add: f2_def fill_slot_def Let_def store_page_def)
    have lt: "num_records pg + 1 < num_records_per_page f2"
      using False nf hdr2 by (simp add: same_hdr_def)
    have "r = Inr (Rid p s, p) \<and> f' = f2"
      using ld pg False by (simp add: insert_record_for_load_data_def s_def[symmetric] f2_def[symmetric] Let_def)
    then show ?thesis using inv2 abs2 none pg2 lt by auto
  qed
qed

theorem load_data_refines_witness:
  "heap_inv (snd (insert_record_for_load_data [6, 6] 2 demo_file)) \<and>
   (\<exists>rid p' pg'. fst (insert_record_for_load_data [6, 6] 2 demo_file) = Inr (rid, p') \<and> heap_abs demo_file rid = None \<and>
     heap_abs (snd (insert_record_for_load_data [6, 6] 2 demo_file)) = (heap_abs demo_file)(rid \<mapsto> take (record_size demo_file) [6, 6]) \<and>
     pages (snd (insert_record_for_load_data [6, 6] 2 demo_file)) p' = Some pg' \<and>
     num_records pg' < num_records_per_page (snd (insert_record_for_load_data [6, 6] 2 demo_file)))"
  using load_data_refines[of demo_file 2 "\<lparr>num_records = 1, bitmap = [True, False], slots = [[3, 3], [0, 0]]\<rparr>" "[6, 6]"
      "fst (insert_record_for_load_data [6, 6] 2 demo_file)" "snd (insert_record_for_load_data [6, 6] 2 demo_file)"]
    demo_file_inv
  by (simp add: demo_file_def)

end
