(* ===== verification/Transaction_Manager.thy ===== *)
theory Transaction_Manager
  imports Record_Heap
begin

text \<open>
  The transaction manager of \<open>transaction/transaction_manager.cpp\<close>: \<open>begin\<close>,
  \<open>commit\<close>, \<open>abort\<close> and \<open>rollback_writeRecord\<close>. A transaction is the context of
  the heap model (its \<open>Transaction\<close> record, the lock table, the log manager and its
  write set); the tables are the open heap files of the system manager
  (\<open>sm_manager_->fhs_\<close>), a map from table name to file. Rollback undoes the write
  set newest first, through the heap methods and with a compensating log record per
  write. The index maintenance of rollback is not modelled (the page-level B+ tree is
  not part of the model); the heap side is.
\<close>

section \<open>State\<close>

type_synonym tables = "table_name \<rightharpoonup> rm_file"

text \<open>The global transaction table \<open>txn_map\<close> and the id counter
  \<open>next_txn_id_\<close> of \<open>transaction_manager.h\<close>.\<close>

record txn_manager =
  next_txn_id :: txn_id
  txn_map :: "txn_id \<rightharpoonup> transaction"

text \<open>A rollback that fails: a heap method raised, or \<open>fhs_[name]\<close> holds no handle
  (a null pointer in the code).\<close>

datatype txn_error = HeapError rm_error | NullFileHandle table_name | TxnAssertFailure

section \<open>Operations\<close>

text \<open>\<open>begin\<close>: a null transaction gets the next id, state \<open>GROWING\<close> and an entry
  in \<open>txn_map\<close> (which must be free); either way a begin record is logged.\<close>

definition txn_begin :: "transaction option \<Rightarrow> log_manager \<Rightarrow> txn_manager \<Rightarrow>
    (txn_error + transaction) \<times> log_manager \<times> txn_manager" where
  "txn_begin txn lm tm =
     (case txn of
        None \<Rightarrow>
          (let t = \<lparr>txn_id = next_txn_id tm, txn_state = GROWING, lock_set = []\<rparr>;
               tm1 = tm\<lparr>next_txn_id := next_txn_id tm + 1\<rparr>
           in if txn_map tm1 (txn_id t) \<noteq> None then (Inl TxnAssertFailure, lm, tm1)
              else (Inr t, add_begin_log_record (txn_id t) lm, tm1\<lparr>txn_map := (txn_map tm1)(txn_id t \<mapsto> t)\<rparr>))
      | Some t \<Rightarrow> (Inr t, add_begin_log_record (txn_id t) lm, tm))"

text \<open>\<open>rollback_writeRecord\<close>: the inverse heap method of each write, after its
  log record. An insert is undone by \<open>delete_record\<close>, a delete by
  \<open>insert_record(rid, buf)\<close>, an update by \<open>update_record\<close> with the old image; the
  update logs the image it overwrites, read first by \<open>get_record\<close>.\<close>

definition rollback_writeRecord :: "write_record \<Rightarrow> txn_id \<Rightarrow> tables \<Rightarrow> log_manager \<Rightarrow>
    (txn_error + unit) \<times> tables \<times> log_manager" where
  "rollback_writeRecord w tid ts lm =
     (let name = wr_tab_name w; rid = wr_rid w; r = wr_record w
      in case ts name of
        None \<Rightarrow> (Inl (NullFileHandle name), ts, lm)
      | Some f \<Rightarrow>
          (case wr_type w of
             INSERT_TUPLE \<Rightarrow>
               (let lm1 = add_delete_log_record tid r rid name lm
                in case delete_record rid None f of
                     (Inl e, f', _) \<Rightarrow> (Inl (HeapError e), ts(name \<mapsto> f'), lm1)
                   | (Inr _, f', _) \<Rightarrow> (Inr (), ts(name \<mapsto> f'), lm1))
           | DELETE_TUPLE \<Rightarrow>
               (let lm1 = add_insert_log_record tid r rid name lm
                in case insert_record_at rid r f of
                     (Inl e, f') \<Rightarrow> (Inl (HeapError e), ts(name \<mapsto> f'), lm1)
                   | (Inr _, f') \<Rightarrow> (Inr (), ts(name \<mapsto> f'), lm1))
           | UPDATE_TUPLE \<Rightarrow>
               (case get_record rid None f of
                  (Inl e, _) \<Rightarrow> (Inl (HeapError e), ts, lm)
                | (Inr old, _) \<Rightarrow>
                    (let lm1 = add_update_log_record tid r old rid name lm
                     in case update_record rid r None f of
                          (Inl e, f', _) \<Rightarrow> (Inl (HeapError e), ts(name \<mapsto> f'), lm1)
                        | (Inr _, f', _) \<Rightarrow> (Inr (), ts(name \<mapsto> f'), lm1)))))"

text \<open>The loop of \<open>abort\<close> over the write set from \<open>rbegin()\<close> to \<open>rend()\<close>: the
  list given here is already reversed; an exception ends the loop.\<close>

fun rollback_all :: "write_record list \<Rightarrow> txn_id \<Rightarrow> tables \<Rightarrow> log_manager \<Rightarrow>
    (txn_error + unit) \<times> tables \<times> log_manager" where
  "rollback_all [] tid ts lm = (Inr (), ts, lm)"
| "rollback_all (w # ws) tid ts lm =
     (case rollback_writeRecord w tid ts lm of
        (Inl e, ts', lm') \<Rightarrow> (Inl e, ts', lm')
      | (Inr _, ts', lm') \<Rightarrow> rollback_all ws tid ts' lm')"

text \<open>Steps 2 to 5 shared by \<open>commit\<close> and \<open>abort\<close>: \<open>SHRINKING\<close>, unlock every
  object of the lock set, clear write set and lock set, log the end record, flush
  the log, and the final state.\<close>

definition release_and_finish :: "(txn_id \<Rightarrow> log_manager \<Rightarrow> log_manager) \<Rightarrow> TransactionState \<Rightarrow>
    rm_context \<Rightarrow> rm_context" where
  "release_and_finish log_end st c =
     (let t = (ctx_txn c)\<lparr>txn_state := SHRINKING\<rparr>;
          lt = fold (unlock t) (lock_set t) (ctx_locks c);
          lm = flush_log_to_disk (log_end (txn_id t) (ctx_log c))
      in c\<lparr>ctx_txn := t\<lparr>lock_set := [], txn_state := st\<rparr>, ctx_locks := lt, ctx_log := lm, ctx_writes := []\<rparr>)"

definition txn_commit :: "rm_context \<Rightarrow> rm_context" where
  "txn_commit c = release_and_finish add_commit_log_record COMMITTED c"

definition txn_abort :: "rm_context \<Rightarrow> tables \<Rightarrow> (txn_error + unit) \<times> rm_context \<times> tables" where
  "txn_abort c ts =
     (case rollback_all (rev (ctx_writes c)) (ctx_tid c) ts (ctx_log c) of
        (Inl e, ts', lm') \<Rightarrow> (Inl e, c\<lparr>ctx_log := lm'\<rparr>, ts')
      | (Inr _, ts', lm') \<Rightarrow> (Inr (), release_and_finish add_abort_log_record ABORTED (c\<lparr>ctx_log := lm'\<rparr>), ts'))"


section \<open>What a rollback must restore\<close>

text \<open>The contents of the open tables, and their shape (pages held, slots per page,
  record size), which decides whether an undo step can run.\<close>

type_synonym tab_view = "table_name \<rightharpoonup> (Rid \<rightharpoonup> rm_record)"
type_synonym tab_shape = "table_name \<rightharpoonup> (page_no set \<times> int \<times> nat)"

definition tables_view :: "tables \<Rightarrow> tab_view" where
  "tables_view ts n = map_option heap_abs (ts n)"

definition tables_shape :: "tables \<Rightarrow> tab_shape" where
  "tables_shape ts n = map_option (\<lambda>f. (dom (pages f), num_records_per_page f, record_size f)) (ts n)"

definition tables_inv :: "tables \<Rightarrow> bool" where
  "tables_inv ts \<longleftrightarrow> (\<forall>n f. ts n = Some f \<longrightarrow> heap_inv f \<and> file_name f = n)"

text \<open>Undoing one write on the contents, and when the heap method that undoes it
  succeeds: an insert is undone on an occupied slot, a delete on a free slot of an
  existing page, an update on an occupied slot.\<close>

definition undo_view :: "write_record \<Rightarrow> tab_view \<Rightarrow> tab_view" where
  "undo_view w V =
     V(wr_tab_name w \<mapsto> (the (V (wr_tab_name w)))(wr_rid w :=
        (if wr_type w = INSERT_TUPLE then None else Some (wr_record w))))"

definition undo_enabled :: "write_record \<Rightarrow> tab_view \<Rightarrow> tab_shape \<Rightarrow> bool" where
  "undo_enabled w V S =
     (case (V (wr_tab_name w), S (wr_tab_name w)) of
        (Some m, Some (P, n, rs)) \<Rightarrow>
          0 \<le> rid_slot_no (wr_rid w) \<and> rid_slot_no (wr_rid w) < n \<and>
          (case wr_type w of
             INSERT_TUPLE \<Rightarrow> m (wr_rid w) \<noteq> None
           | DELETE_TUPLE \<Rightarrow> m (wr_rid w) = None \<and> rid_page_no (wr_rid w) \<in> P \<and> length (wr_record w) \<le> rs
           | UPDATE_TUPLE \<Rightarrow> m (wr_rid w) \<noteq> None \<and> length (wr_record w) \<le> rs)
      | _ \<Rightarrow> False)"

fun undo_chain :: "write_record list \<Rightarrow> tab_view \<Rightarrow> tab_shape \<Rightarrow> tab_view option" where
  "undo_chain [] V S = Some V"
| "undo_chain (w # ws) V S = (if undo_enabled w V S then undo_chain ws (undo_view w V) S else None)"

text \<open>The runs of one transaction: successful inserts, deletes and updates through
  its context on the open tables, as the executors issue them.\<close>

inductive txn_run :: "tables \<Rightarrow> rm_context \<Rightarrow> tables \<Rightarrow> rm_context \<Rightarrow> bool" where
  start: "txn_run ts c ts c"
| insert: "txn_run ts0 c0 ts c \<Longrightarrow> ts n = Some f \<Longrightarrow> insert_record buf (Some c) f = (Inr rid, f', Some c') \<Longrightarrow>
     txn_run ts0 c0 (ts(n \<mapsto> f')) c'"
| delete: "txn_run ts0 c0 ts c \<Longrightarrow> ts n = Some f \<Longrightarrow> slot_in_range f rid \<Longrightarrow>
     delete_record_lock rid b (Some c) f = (Inr (), f', Some c') \<Longrightarrow> txn_run ts0 c0 (ts(n \<mapsto> f')) c'"
| update: "txn_run ts0 c0 ts c \<Longrightarrow> ts n = Some f \<Longrightarrow> slot_in_range f rid \<Longrightarrow>
     update_record_lock rid buf b (Some c) f = (Inr (), f', Some c') \<Longrightarrow> txn_run ts0 c0 (ts(n \<mapsto> f')) c'"


text \<open>The transaction has an entry in the object's request queue.\<close>

definition holds_any :: "lock_table \<Rightarrow> txn_id \<Rightarrow> LockDataId \<Rightarrow> bool" where
  "holds_any lt tid lid = (case lt lid of None \<Rightarrow> False | Some q \<Rightarrow> list_ex (\<lambda>r. req_txn r = tid) q)"

text \<open>A table \<open>t\<close> holding \<open>demo_file\<close>, for the witnesses.\<close>

definition demo_tables :: tables where
  "demo_tables = [''t'' \<mapsto> demo_file]"


section \<open>Rollback, commit and begin\<close>

lemma abs_some_page:
  "heap_abs f rid \<noteq> None \<Longrightarrow> slot_in_range f rid \<and> (\<exists>pg. pages f (rid_page_no rid) = Some pg \<and>
     is_set (bitmap pg) (rid_slot_no rid) \<and> heap_abs f rid = Some (take (record_size f) (get_slot pg (rid_slot_no rid))))"
  by (auto simp: heap_abs_def slot_in_range_def split: option.splits if_splits)

lemma fetch_existing: "heap_inv f \<Longrightarrow> pages f p = Some pg \<Longrightarrow> fetch_page_handle f p = Inr pg"
  using inv_dom[of f p pg] by (simp add: fetch_page_handle_def INVALID_PAGE_ID_def)

lemma delete_succeeds:
  assumes "heap_inv f" "heap_abs f rid \<noteq> None"
  shows "\<exists>f'. delete_record rid None f = (Inr (), f', None)"
proof -
  obtain pg where pg: "pages f (rid_page_no rid) = Some pg" and set: "is_set (bitmap pg) (rid_slot_no rid)"
    using abs_some_page[OF assms(2)] by blast
  show ?thesis using fetch_existing[OF assms(1) pg] set by (simp add: delete_record_def Let_def)
qed

lemma update_succeeds:
  assumes "heap_inv f" "heap_abs f rid \<noteq> None"
  shows "\<exists>f'. update_record rid buf None f = (Inr (), f', None)"
proof -
  obtain pg where pg: "pages f (rid_page_no rid) = Some pg" and set: "is_set (bitmap pg) (rid_slot_no rid)"
    using abs_some_page[OF assms(2)] by blast
  show ?thesis using fetch_existing[OF assms(1) pg] set by (simp add: update_record_def Let_def)
qed

lemma get_record_abs:
  assumes "heap_inv f" "heap_abs f rid = Some v"
  shows "get_record rid None f = (Inr v, None)"
proof -
  obtain pg where pg: "pages f (rid_page_no rid) = Some pg"
    and v: "heap_abs f rid = Some (take (record_size f) (get_slot pg (rid_slot_no rid)))"
    using abs_some_page[of f rid] assms(2) by auto
  show ?thesis using fetch_existing[OF assms(1) pg] v assms(2) by (simp add: get_record_def opt_lock_def)
qed

lemma insert_record_at_dom:
  "insert_record_at rid buf f = (Inr (), f') \<Longrightarrow> dom (pages f') = dom (pages f)"
  by (auto simp: insert_record_at_def fill_slot_def Let_def store_page_def dest!: fetch_page_handle_Inr
      split: sum.splits if_splits)

lemma update_record_dom:
  "update_record rid buf None f = (Inr (), f', c') \<Longrightarrow> dom (pages f') = dom (pages f)"
  by (auto simp: update_record_def Let_def store_page_def dest!: fetch_page_handle_Inr split: sum.splits if_splits)


lemma tables_invD: "tables_inv ts \<Longrightarrow> ts n = Some f \<Longrightarrow> heap_inv f \<and> file_name f = n"
  by (simp add: tables_inv_def)

lemma tables_inv_upd:
  "tables_inv ts \<Longrightarrow> heap_inv f' \<Longrightarrow> file_name f' = n \<Longrightarrow> tables_inv (ts(n \<mapsto> f'))"
  by (simp add: tables_inv_def)

lemma view_upd: "tables_view (ts(n \<mapsto> f')) = (tables_view ts)(n \<mapsto> heap_abs f')"
  by (simp add: tables_view_def fun_eq_iff)

lemma shape_upd:
  "ts n = Some f \<Longrightarrow> dom (pages f') = dom (pages f) \<Longrightarrow> same_hdr f' f \<Longrightarrow> tables_shape (ts(n \<mapsto> f')) = tables_shape ts"
  by (auto simp: tables_shape_def same_hdr_def fun_eq_iff)

lemma rollback_step:
  assumes inv: "tables_inv ts" and en: "undo_enabled w (tables_view ts) (tables_shape ts)"
  shows "\<exists>ts' lm'. rollback_writeRecord w tid ts lm = (Inr (), ts', lm') \<and> tables_inv ts' \<and>
           tables_view ts' = undo_view w (tables_view ts) \<and> tables_shape ts' = tables_shape ts"
proof -
  let ?n = "wr_tab_name w" and ?rid = "wr_rid w" and ?r = "wr_record w"
  obtain f where f: "ts ?n = Some f"
    using en by (auto simp: undo_enabled_def tables_view_def split: option.splits)
  have hi: "heap_inv f" and fn: "file_name f = ?n" using tables_invD[OF inv f] by auto
  have en': "slot_in_range f ?rid \<and> (case wr_type w of
        INSERT_TUPLE \<Rightarrow> heap_abs f ?rid \<noteq> None
      | DELETE_TUPLE \<Rightarrow> heap_abs f ?rid = None \<and> rid_page_no ?rid \<in> dom (pages f) \<and> length ?r \<le> record_size f
      | UPDATE_TUPLE \<Rightarrow> heap_abs f ?rid \<noteq> None \<and> length ?r \<le> record_size f)"
    using en f by (simp add: undo_enabled_def tables_view_def tables_shape_def slot_in_range_def)
  have vw: "the (tables_view ts ?n) = heap_abs f" using f by (simp add: tables_view_def)
  show ?thesis
  proof (cases "wr_type w")
    case INSERT_TUPLE
    then have occ: "heap_abs f ?rid \<noteq> None" using en' by simp
    obtain f' where del: "delete_record ?rid None f = (Inr (), f', None)" using delete_succeeds[OF hi occ] by blast
    note eff = delete_record_effect[OF hi conjunct1[OF en'] del]
    have rb: "rollback_writeRecord w tid ts lm =
        (Inr (), ts(?n \<mapsto> f'), add_delete_log_record tid ?r ?rid ?n lm)"
      using f INSERT_TUPLE del by (simp add: rollback_writeRecord_def Let_def)
    show ?thesis
      using rb tables_inv_upd[OF inv] eff fn shape_upd[of ts "wr_tab_name w" f, OF f] vw INSERT_TUPLE
      by (auto simp: view_upd undo_view_def same_hdr_def)
  next
    case DELETE_TUPLE
    then have fr: "heap_abs f ?rid = None" and pg: "pages f (rid_page_no ?rid) \<noteq> None"
      and len: "length ?r \<le> record_size f" using en' by auto
    obtain f' where ins: "insert_record_at ?rid ?r f = (Inr (), f')"
      using insert_record_at_ok[OF hi conjunct1[OF en'] pg fr] by blast
    note eff = insert_record_at_effect[OF hi conjunct1[OF en'] ins]
    have rb: "rollback_writeRecord w tid ts lm =
        (Inr (), ts(?n \<mapsto> f'), add_insert_log_record tid ?r ?rid ?n lm)"
      using f DELETE_TUPLE ins by (simp add: rollback_writeRecord_def Let_def)
    show ?thesis
      using rb tables_inv_upd[OF inv] eff fn shape_upd[of ts "wr_tab_name w" f, OF f insert_record_at_dom[OF ins]] vw DELETE_TUPLE len
      by (auto simp: view_upd undo_view_def same_hdr_def)
  next
    case UPDATE_TUPLE
    then have occ: "heap_abs f ?rid \<noteq> None" and len: "length ?r \<le> record_size f" using en' by auto
    obtain old where old: "heap_abs f ?rid = Some old" using occ by blast
    obtain f' where upd: "update_record ?rid ?r None f = (Inr (), f', None)" using update_succeeds[OF hi occ] by blast
    note eff = update_record_effect[OF hi conjunct1[OF en'] upd]
    have rb: "rollback_writeRecord w tid ts lm =
        (Inr (), ts(?n \<mapsto> f'), add_update_log_record tid ?r old ?rid ?n lm)"
      using f UPDATE_TUPLE upd get_record_abs[OF hi old] by (simp add: rollback_writeRecord_def Let_def)
    show ?thesis
      using rb tables_inv_upd[OF inv] eff fn shape_upd[of ts "wr_tab_name w" f, OF f update_record_dom[OF upd]] vw UPDATE_TUPLE len
      by (auto simp: view_upd undo_view_def same_hdr_def)
  qed
qed

lemma rollback_all_chain:
  "tables_inv ts \<Longrightarrow> undo_chain ws (tables_view ts) (tables_shape ts) = Some V' \<Longrightarrow>
   \<exists>ts' lm'. rollback_all ws tid ts lm = (Inr (), ts', lm') \<and> tables_inv ts' \<and> tables_view ts' = V'"
proof (induction ws arbitrary: ts lm)
  case Nil
  then show ?case by simp
next
  case (Cons w ws)
  have en: "undo_enabled w (tables_view ts) (tables_shape ts)" using Cons.prems(2) by (simp split: if_splits)
  obtain ts1 lm1 where rb: "rollback_writeRecord w tid ts lm = (Inr (), ts1, lm1)" and inv1: "tables_inv ts1"
    and v1: "tables_view ts1 = undo_view w (tables_view ts)" and s1: "tables_shape ts1 = tables_shape ts"
    using rollback_step[OF Cons.prems(1) en] by blast
  have "undo_chain ws (tables_view ts1) (tables_shape ts1) = Some V'" using Cons.prems(2) en v1 s1 by simp
  then obtain ts' lm' where "rollback_all ws tid ts1 lm1 = (Inr (), ts', lm')" "tables_inv ts'" "tables_view ts' = V'"
    using Cons.IH[OF inv1] by blast
  moreover have "rollback_all (w # ws) tid ts lm = rollback_all ws tid ts1 lm1" using rb by simp
  ultimately show ?case by auto
qed


definition shape_le :: "tab_shape \<Rightarrow> tab_shape \<Rightarrow> bool" where
  "shape_le S S' \<longleftrightarrow> (\<forall>n P k rs. S n = Some (P, k, rs) \<longrightarrow> (\<exists>P'. S' n = Some (P', k, rs) \<and> P \<subseteq> P'))"

lemma undo_enabled_mono: "undo_enabled w V S \<Longrightarrow> shape_le S S' \<Longrightarrow> undo_enabled w V S'"
  by (fastforce simp: undo_enabled_def shape_le_def split: option.splits WType.splits)

lemma undo_chain_mono: "undo_chain ws V S = Some V' \<Longrightarrow> shape_le S S' \<Longrightarrow> undo_chain ws V S' = Some V'"
  by (induction ws arbitrary: V) (auto intro: undo_enabled_mono split: if_splits)

lemma shape_le_refl [simp]: "shape_le S S"
  by (simp add: shape_le_def)

lemma shape_le_trans: "shape_le S1 S2 \<Longrightarrow> shape_le S2 S3 \<Longrightarrow> shape_le S1 S3"
  unfolding shape_le_def by (meson order_trans)

lemma shape_le_upd:
  "ts n = Some f \<Longrightarrow> dom (pages f) \<subseteq> dom (pages f') \<Longrightarrow> same_hdr f' f \<Longrightarrow>
     shape_le (tables_shape ts) (tables_shape (ts(n \<mapsto> f')))"
  by (auto simp: shape_le_def tables_shape_def same_hdr_def)

lemma create_page_handle_dom: "create_page_handle f = (r, f1) \<Longrightarrow> dom (pages f) \<subseteq> dom (pages f1)"
  by (auto simp: create_page_handle_def create_new_page_handle_def Let_def split: if_splits sum.splits)

lemma insert_record_dom: "insert_record buf ctx f = (r, f', c') \<Longrightarrow> dom (pages f) \<subseteq> dom (pages f')"
  by (auto simp: insert_record_def fill_slot_def Let_def store_page_def dest!: create_page_handle_dom
      split: prod.splits sum.splits if_splits)

lemma insert_record_writes:
  "insert_record buf (Some c) f = (Inr rid, f', Some c') \<Longrightarrow>
     ctx_writes c' = ctx_writes c @
       [\<lparr>wr_type = INSERT_TUPLE, wr_tab_name = file_name f, wr_rid = rid, wr_record = take (record_size f) buf\<rparr>]"
  by (auto simp: insert_record_def opt_lock_def ctx_lock_def Let_def log_with_def append_write_record_def
      create_page_handle_def create_new_page_handle_def split: prod.splits sum.splits if_splits)


lemma pre_image_abs:
  assumes inv: "heap_inv f" and pre: "ctx_pre_image b w rid f c = (Inr r, c1)" and occ: "heap_abs f rid \<noteq> None"
  shows "heap_abs f rid = Some r \<and> (\<exists>c2. c1 = Some (append_write_record
           \<lparr>wr_type = w, wr_tab_name = file_name f, wr_rid = rid, wr_record = r\<rparr> c2) \<and> ctx_writes c2 = ctx_writes c)"
proof -
  obtain c2 pg where c1: "c1 = Some (append_write_record \<lparr>wr_type = w, wr_tab_name = file_name f, wr_rid = rid, wr_record = r\<rparr> c2)"
    and ws: "ctx_writes c2 = ctx_writes c" and pg: "fetch_page_handle f (rid_page_no rid) = Inr pg"
    and r: "r = take (record_size f) (get_slot pg (rid_slot_no rid))"
    using ctx_pre_image_Inr[OF pre] by blast
  have "heap_abs f rid = Some r"
    using occ fetch_page_handle_Inr[OF pg] r by (auto simp: heap_abs_def split: if_splits)
  then show ?thesis using c1 ws by blast
qed

lemma delete_record_lock_writes:
  assumes inv: "heap_inv f" and sr: "slot_in_range f rid"
    and del: "delete_record_lock rid b (Some c) f = (Inr (), f', Some c')"
  shows "\<exists>r. heap_abs f rid = Some r \<and>
     ctx_writes c' = ctx_writes c @ [\<lparr>wr_type = DELETE_TUPLE, wr_tab_name = file_name f, wr_rid = rid, wr_record = r\<rparr>]"
proof -
  have occ: "heap_abs f rid \<noteq> None" using delete_record_lock_effect[OF inv sr del] by simp
  obtain r c1 where pre: "ctx_pre_image b DELETE_TUPLE rid f c = (Inr r, c1)"
    and c': "Some c' = map_option (\<lambda>c. log_with (add_delete_log_record (ctx_tid c) r rid (file_name f)) c) c1"
    using del by (auto simp: delete_record_lock_def Let_def split: sum.splits if_splits prod.splits)
  show ?thesis using pre_image_abs[OF inv pre occ] c'
    by (auto simp: append_write_record_def log_with_def)
qed

lemma update_record_lock_writes:
  assumes inv: "heap_inv f" and sr: "slot_in_range f rid"
    and upd: "update_record_lock rid buf b (Some c) f = (Inr (), f', Some c')"
  shows "\<exists>r. heap_abs f rid = Some r \<and>
     ctx_writes c' = ctx_writes c @ [\<lparr>wr_type = UPDATE_TUPLE, wr_tab_name = file_name f, wr_rid = rid, wr_record = r\<rparr>]"
proof -
  have occ: "heap_abs f rid \<noteq> None" using update_record_lock_effect[OF inv sr upd] by simp
  obtain r c1 where pre: "ctx_pre_image b UPDATE_TUPLE rid f c = (Inr r, c1)"
    and c': "Some c' = (if b then map_option (\<lambda>c. log_with (add_update_log_record (ctx_tid c)
                 (take (record_size f) buf) r rid (file_name f)) c) c1 else c1)"
    using upd by (auto simp: update_record_lock_def Let_def split: sum.splits if_splits prod.splits)
  show ?thesis using pre_image_abs[OF inv pre occ] c'
    by (auto simp: append_write_record_def log_with_def split: if_splits)
qed

lemma update_record_lock_dom:
  "update_record_lock rid buf b ctx f = (Inr (), f', c') \<Longrightarrow> dom (pages f') = dom (pages f)"
  by (auto simp: update_record_lock_def Let_def store_page_def dest!: fetch_page_handle_Inr
      split: sum.splits if_splits prod.splits option.splits)


lemma undo_step_view:
  assumes inv: "tables_inv ts" and f: "ts n = Some f"
    and w: "wr_tab_name w = n" and v: "undo_enabled w (tables_view (ts(n \<mapsto> f'))) (tables_shape (ts(n \<mapsto> f')))"
    and undo: "(heap_abs f')(wr_rid w := (if wr_type w = INSERT_TUPLE then None else Some (wr_record w))) = heap_abs f"
    and le: "shape_le (tables_shape ts) (tables_shape (ts(n \<mapsto> f')))"
    and ch: "undo_chain ws (tables_view ts) (tables_shape ts) = Some V0"
  shows "undo_chain (w # ws) (tables_view (ts(n \<mapsto> f'))) (tables_shape (ts(n \<mapsto> f'))) = Some V0"
proof -
  have "undo_view w (tables_view (ts(n \<mapsto> f'))) = (tables_view ts)(n \<mapsto> heap_abs f)"
    using undo w by (simp add: undo_view_def view_upd)
  also have "\<dots> = tables_view ts" using f by (auto simp: tables_view_def fun_eq_iff)
  finally show ?thesis using v undo_chain_mono[OF ch le] by simp
qed

lemma txn_run_chain:
  "txn_run ts0 c0 ts c \<Longrightarrow> tables_inv ts0 \<Longrightarrow> ctx_writes c0 = [] \<Longrightarrow>
   tables_inv ts \<and> undo_chain (rev (ctx_writes c)) (tables_view ts) (tables_shape ts) = Some (tables_view ts0)"
proof (induction rule: txn_run.induct)
  case (start ts c)
  then show ?case by simp
next
  case (insert ts0 c0 ts c n f buf rid f' c')
  have inv: "tables_inv ts" and ch: "undo_chain (rev (ctx_writes c)) (tables_view ts) (tables_shape ts) = Some (tables_view ts0)"
    using insert.IH insert.prems by auto
  have hi: "heap_inv f" and fn: "file_name f = n" using tables_invD[OF inv insert.hyps(2)] by auto
  note eff = insert_record_effect[OF hi insert.hyps(3)]
  have ws: "ctx_writes c' = ctx_writes c @
      [\<lparr>wr_type = INSERT_TUPLE, wr_tab_name = n, wr_rid = rid, wr_record = take (record_size f) buf\<rparr>]"
    using insert_record_writes[OF insert.hyps(3)] fn by simp
  have inv': "tables_inv (ts(n \<mapsto> f'))" using tables_inv_upd[OF inv] eff fn by (simp add: same_hdr_def)
  have occ: "heap_abs f' rid \<noteq> None" using eff by simp
  have le: "shape_le (tables_shape ts) (tables_shape (ts(n \<mapsto> f')))"
    using shape_le_upd[of ts n f, OF insert.hyps(2) insert_record_dom[OF insert.hyps(3)]] eff by simp
  have en: "undo_enabled \<lparr>wr_type = INSERT_TUPLE, wr_tab_name = n, wr_rid = rid, wr_record = take (record_size f) buf\<rparr>
      (tables_view (ts(n \<mapsto> f'))) (tables_shape (ts(n \<mapsto> f')))"
    using occ abs_some_page[OF occ] by (auto simp: undo_enabled_def tables_view_def tables_shape_def slot_in_range_def)
  have "undo_chain (rev (ctx_writes c')) (tables_view (ts(n \<mapsto> f'))) (tables_shape (ts(n \<mapsto> f'))) = Some (tables_view ts0)"
    unfolding ws using undo_step_view[OF inv insert.hyps(2) _ en _ le ch] eff by (simp add: fun_eq_iff)
  then show ?case using inv' by (simp add: fun_upd_def)
next
  case (delete ts0 c0 ts c n f rid b f' c')
  have inv: "tables_inv ts" and ch: "undo_chain (rev (ctx_writes c)) (tables_view ts) (tables_shape ts) = Some (tables_view ts0)"
    using delete.IH delete.prems by auto
  have hi: "heap_inv f" and fn: "file_name f = n" using tables_invD[OF inv delete.hyps(2)] by auto
  note eff = delete_record_lock_effect[OF hi delete.hyps(3) delete.hyps(4)]
  obtain r where r: "heap_abs f rid = Some r" and ws: "ctx_writes c' = ctx_writes c @
      [\<lparr>wr_type = DELETE_TUPLE, wr_tab_name = n, wr_rid = rid, wr_record = r\<rparr>]"
    using delete_record_lock_writes[OF hi delete.hyps(3) delete.hyps(4)] fn by auto
  have inv': "tables_inv (ts(n \<mapsto> f'))" using tables_inv_upd[OF inv] eff fn by (simp add: same_hdr_def)
  have le: "shape_le (tables_shape ts) (tables_shape (ts(n \<mapsto> f')))"
    using shape_le_upd[of ts n f, OF delete.hyps(2)] eff by simp
  obtain pg where pg: "pages f (rid_page_no rid) = Some pg" using abs_some_page[of f rid] r by auto
  have en: "undo_enabled \<lparr>wr_type = DELETE_TUPLE, wr_tab_name = n, wr_rid = rid, wr_record = r\<rparr>
      (tables_view (ts(n \<mapsto> f'))) (tables_shape (ts(n \<mapsto> f')))"
    using eff delete.hyps(3) pg heap_abs_take[OF r] length_take[of "record_size f" r]
    by (auto simp: undo_enabled_def tables_view_def tables_shape_def slot_in_range_def same_hdr_def)
  have "undo_chain (rev (ctx_writes c')) (tables_view (ts(n \<mapsto> f'))) (tables_shape (ts(n \<mapsto> f'))) = Some (tables_view ts0)"
    unfolding ws using undo_step_view[OF inv delete.hyps(2) _ en _ le ch] eff r by (simp add: fun_eq_iff)
  then show ?case using inv' by (simp add: fun_upd_def)
next
  case (update ts0 c0 ts c n f rid buf b f' c')
  have inv: "tables_inv ts" and ch: "undo_chain (rev (ctx_writes c)) (tables_view ts) (tables_shape ts) = Some (tables_view ts0)"
    using update.IH update.prems by auto
  have hi: "heap_inv f" and fn: "file_name f = n" using tables_invD[OF inv update.hyps(2)] by auto
  note eff = update_record_lock_effect[OF hi update.hyps(3) update.hyps(4)]
  obtain r where r: "heap_abs f rid = Some r" and ws: "ctx_writes c' = ctx_writes c @
      [\<lparr>wr_type = UPDATE_TUPLE, wr_tab_name = n, wr_rid = rid, wr_record = r\<rparr>]"
    using update_record_lock_writes[OF hi update.hyps(3) update.hyps(4)] fn by auto
  have inv': "tables_inv (ts(n \<mapsto> f'))" using tables_inv_upd[OF inv] eff fn by (simp add: same_hdr_def)
  have le: "shape_le (tables_shape ts) (tables_shape (ts(n \<mapsto> f')))"
    using shape_le_upd[of ts n f, OF update.hyps(2) equalityD2[OF update_record_lock_dom[OF update.hyps(4)]]] eff by simp
  have en: "undo_enabled \<lparr>wr_type = UPDATE_TUPLE, wr_tab_name = n, wr_rid = rid, wr_record = r\<rparr>
      (tables_view (ts(n \<mapsto> f'))) (tables_shape (ts(n \<mapsto> f')))"
    using eff update.hyps(3) heap_abs_take[OF r] length_take[of "record_size f" r]
    by (auto simp: undo_enabled_def tables_view_def tables_shape_def slot_in_range_def same_hdr_def)
  have "undo_chain (rev (ctx_writes c')) (tables_view (ts(n \<mapsto> f'))) (tables_shape (ts(n \<mapsto> f'))) = Some (tables_view ts0)"
    unfolding ws using undo_step_view[OF inv update.hyps(2) _ en _ le ch] eff r by (simp add: fun_eq_iff)
  then show ?case using inv' by (simp add: fun_upd_def)
qed


lemma unlock_other: "lid' \<noteq> lid \<Longrightarrow> unlock t lid lt lid' = lt lid'"
  by (simp add: unlock_def Let_def split: option.splits)

lemma unlock_clears: "lt_inv lt \<Longrightarrow> \<not> holds_any (unlock t lid lt) (txn_id t) lid"
proof -
  assume inv: "lt_inv lt"
  show ?thesis
  proof (cases "lt lid")
    case (Some q)
    have "distinct (map req_txn q)" using lt_invD[OF inv Some] by (simp add: queue_ok_def)
    then show ?thesis using Some remove_first_txn_gone[of q _ "txn_id t"]
      by (auto simp: unlock_def holds_any_def Let_def list_ex_iff)
  qed (simp add: unlock_def holds_any_def)
qed

lemma fold_unlock_clears:
  "lt_inv lt \<Longrightarrow> (\<forall>lid. holds_any lt (txn_id t) lid \<longrightarrow> lid \<in> set lids) \<Longrightarrow>
     \<not> holds_any (fold (unlock t) lids lt) (txn_id t) lid"
proof (induction lids arbitrary: lt)
  case Nil
  then show ?case by auto
next
  case (Cons l ls)
  have inv': "lt_inv (unlock t l lt)" using unlock_inv[OF Cons.prems(1)] .
  have "\<forall>lid. holds_any (unlock t l lt) (txn_id t) lid \<longrightarrow> lid \<in> set ls"
  proof (intro allI impI)
    fix lid assume h: "holds_any (unlock t l lt) (txn_id t) lid"
    then have "lid \<noteq> l" using unlock_clears[OF Cons.prems(1)] by auto
    then have "holds_any lt (txn_id t) lid" using h by (simp add: holds_any_def unlock_other)
    then show "lid \<in> set ls" using Cons.prems(2) \<open>lid \<noteq> l\<close> by auto
  qed
  then show ?case using Cons.IH[OF inv'] by simp
qed

lemma release_and_finish_fields:
  "ctx_locks (release_and_finish g st c) = fold (unlock ((ctx_txn c)\<lparr>txn_state := SHRINKING\<rparr>)) (lock_set (ctx_txn c)) (ctx_locks c) \<and>
   ctx_log (release_and_finish g st c) = flush_log_to_disk (g (ctx_tid c) (ctx_log c)) \<and>
   txn_state (ctx_txn (release_and_finish g st c)) = st \<and> lock_set (ctx_txn (release_and_finish g st c)) = [] \<and>
   txn_id (ctx_txn (release_and_finish g st c)) = ctx_tid c \<and> ctx_writes (release_and_finish g st c) = []"
  by (simp add: release_and_finish_def Let_def ctx_tid_def)

lemma release_clears:
  assumes "lt_inv (ctx_locks c)" "\<forall>lid. holds_any (ctx_locks c) (ctx_tid c) lid \<longrightarrow> lid \<in> set (lock_set (ctx_txn c))"
  shows "\<not> holds_any (ctx_locks (release_and_finish g st c)) (ctx_tid c) lid"
  using fold_unlock_clears[of "ctx_locks c" "(ctx_txn c)\<lparr>txn_state := SHRINKING\<rparr>" "lock_set (ctx_txn c)" lid] assms
  by (simp add: release_and_finish_fields ctx_tid_def)

lemma flush_records: "log_file (flush_log_to_disk lm) = all_records lm \<and> buffer_recs (flush_log_to_disk lm) = []"
  by (simp add: flush_log_to_disk_def all_records_def)

text \<open>C36. Abort is atomic on the heap: after any run of inserts, deletes and updates
  of one transaction over well-formed tables, starting with an empty write set, abort
  rolls every write back without error and the tables again store exactly what they
  stored before the run; the transaction ends ABORTED with empty write and lock sets.\<close>

theorem abort_restores_tables:
  assumes run: "txn_run ts0 c0 ts c" and inv: "tables_inv ts0" and empty: "ctx_writes c0 = []"
    and ab: "txn_abort c ts = (r, c', ts')"
  shows "r = Inr () \<and> tables_view ts' = tables_view ts0 \<and> txn_state (ctx_txn c') = ABORTED \<and>
         ctx_writes c' = [] \<and> lock_set (ctx_txn c') = []"
proof -
  have inv': "tables_inv ts" and ch: "undo_chain (rev (ctx_writes c)) (tables_view ts) (tables_shape ts) = Some (tables_view ts0)"
    using txn_run_chain[OF run inv empty] by auto
  obtain ts1 lm1 where rb: "rollback_all (rev (ctx_writes c)) (ctx_tid c) ts (ctx_log c) = (Inr (), ts1, lm1)"
    and v: "tables_view ts1 = tables_view ts0"
    using rollback_all_chain[OF inv' ch] by blast
  have "r = Inr () \<and> ts' = ts1 \<and> c' = release_and_finish add_abort_log_record ABORTED (c\<lparr>ctx_log := lm1\<rparr>)"
    using ab rb by (simp add: txn_abort_def)
  then show ?thesis using v release_and_finish_fields by simp
qed

theorem abort_restores_tables_witness:
  "tables_view (snd (snd (txn_abort (the (snd (snd (insert_record [5, 5] (Some demo_ctx) demo_file))))
      (demo_tables(''t'' \<mapsto> fst (snd (insert_record [5, 5] (Some demo_ctx) demo_file))))))) = tables_view demo_tables"
proof -
  let ?ins = "insert_record [5, 5] (Some demo_ctx) demo_file"
  have ins: "?ins = (Inr (Rid 2 1), fst (snd ?ins), Some (the (snd (snd ?ins))))"
    by (simp add: heap_eval demo_file_def demo_ctx_def ctx_lock_def lock_exclusive_on_record_def lock_on_def demo_txn_def)
  have run: "txn_run demo_tables demo_ctx (demo_tables(''t'' \<mapsto> fst (snd ?ins))) (the (snd (snd ?ins)))"
    by (rule txn_run.insert[OF txn_run.start _ ins]) (simp add: demo_tables_def)
  have inv: "tables_inv demo_tables" using demo_file_inv by (simp add: tables_inv_def demo_tables_def demo_file_def)
  let ?ab = "txn_abort (the (snd (snd ?ins))) (demo_tables(''t'' \<mapsto> fst (snd ?ins)))"
  have "ctx_writes demo_ctx = []" by (simp add: demo_ctx_def)
  then show ?thesis
    using abort_restores_tables[OF run inv, where r = "fst ?ab" and c' = "fst (snd ?ab)" and ts' = "snd (snd ?ab)"]
    by simp
qed

text \<open>C37. Commit releases every lock the transaction holds (when its lock set names
  every object where it has a request, as the request functions keep it), writes the
  commit record and flushes the log so that every record up to the commit record is on
  disk, and ends in COMMITTED with empty write and lock sets.\<close>

theorem commit_releases_and_flushes:
  assumes "lt_inv (ctx_locks c)" "\<forall>lid. holds_any (ctx_locks c) (ctx_tid c) lid \<longrightarrow> lid \<in> set (lock_set (ctx_txn c))"
  shows "(\<forall>lid. \<not> holds_any (ctx_locks (txn_commit c)) (ctx_tid c) lid) \<and>
    log_file (ctx_log (txn_commit c)) = all_records (ctx_log c) @
      [\<lparr>lr_lsn = global_lsn (ctx_log c), lr_tid = ctx_tid c, lr_prev_lsn = INVALID_LSN, payload = CommitLog\<rparr>] \<and>
    buffer_recs (ctx_log (txn_commit c)) = [] \<and>
    txn_state (ctx_txn (txn_commit c)) = COMMITTED \<and> ctx_writes (txn_commit c) = [] \<and> lock_set (ctx_txn (txn_commit c)) = []"
  using release_clears[OF assms, where g = add_commit_log_record and st = COMMITTED] release_and_finish_fields[of add_commit_log_record COMMITTED c]
  by (simp add: txn_commit_def flush_records add_commit_log_record_def add_log_record_records)

theorem commit_releases_and_flushes_witness:
  "\<not> holds_any (ctx_locks (txn_commit (demo_ctx\<lparr>ctx_locks := demo_locks, ctx_txn := demo_txn 1\<lparr>lock_set := [TableLock 3]\<rparr>\<rparr>))) 1 (TableLock 3)"
  using commit_releases_and_flushes[of "demo_ctx\<lparr>ctx_locks := demo_locks, ctx_txn := demo_txn 1\<lparr>lock_set := [TableLock 3]\<rparr>\<rparr>"]
    lt_reach_inv[OF demo_locks_reach]
  by (simp add: holds_any_def demo_locks_def ctx_tid_def demo_txn_def)


text \<open>begin without a transaction hands out the next id, registers a GROWING
  transaction under it in txn_map, advances the counter and logs a begin record; if
  the id is already registered the assertion fails.\<close>

theorem begin_registers_fresh_txn:
  "txn_begin None lm tm = (r, lm', tm') \<Longrightarrow>
     (if txn_map tm (next_txn_id tm) = None
      then \<exists>t. r = Inr t \<and> txn_id t = next_txn_id tm \<and> txn_state t = GROWING \<and> txn_map tm' (txn_id t) = Some t \<and>
             next_txn_id tm' = next_txn_id tm + 1 \<and>
             all_records lm' = all_records lm @
               [\<lparr>lr_lsn = global_lsn lm, lr_tid = next_txn_id tm, lr_prev_lsn = INVALID_LSN, payload = BeginLog\<rparr>]
      else r = Inl TxnAssertFailure \<and> lm' = lm)"
  by (auto simp: txn_begin_def Let_def add_begin_log_record_def add_log_record_records split: if_splits)

theorem begin_registers_fresh_txn_witness:
  "fst (txn_begin None log_init \<lparr>next_txn_id = 3, txn_map = Map.empty\<rparr>) = Inr \<lparr>txn_id = 3, txn_state = GROWING, lock_set = []\<rparr> \<and>
   txn_map (snd (snd (txn_begin None log_init \<lparr>next_txn_id = 3, txn_map = Map.empty\<rparr>))) 3 =
     Some \<lparr>txn_id = 3, txn_state = GROWING, lock_set = []\<rparr>"
  using begin_registers_fresh_txn[of log_init "\<lparr>next_txn_id = 3, txn_map = Map.empty\<rparr>"
      "fst (txn_begin None log_init \<lparr>next_txn_id = 3, txn_map = Map.empty\<rparr>)"
      "fst (snd (txn_begin None log_init \<lparr>next_txn_id = 3, txn_map = Map.empty\<rparr>))"
      "snd (snd (txn_begin None log_init \<lparr>next_txn_id = 3, txn_map = Map.empty\<rparr>))"]
  by (auto simp: txn_begin_def Let_def)

end
