(* ===== verification/Log_Serial.thy ===== *)
theory Log_Serial
  imports Log_Manager "HOL-Library.Monad_Syntax"
begin

text \<open>
  The byte image of the log: \<open>LogRecord::serialize\<close> and \<open>deserialize\<close> of
  \<open>recovery/log_manager.h\<close> for every record type, and the analysis pass of
  \<open>recovery/log_recovery.cpp\<close> (\<open>analyze\<close>, \<open>parseLog\<close>) that reads the log file back
  into records. A field read of \<open>deserialize\<close> past the end of the buffer is undefined
  behaviour in the code; the model stops there with \<open>ReadPastEnd\<close>.
\<close>

section \<open>Layout\<close>

text \<open>The header offsets of \<open>recovery/log_defs.h\<close> (not among the sources): type, lsn,
  total length, transaction id, prev-lsn, four bytes each, then the payload.\<close>

definition OFFSET_LOG_TYPE :: nat where "OFFSET_LOG_TYPE = 0"
definition OFFSET_LSN :: nat where "OFFSET_LSN = 4"
definition OFFSET_LOG_TOT_LEN :: nat where "OFFSET_LOG_TOT_LEN = 8"
definition OFFSET_LOG_TID :: nat where "OFFSET_LOG_TID = 12"
definition OFFSET_PREV_LSN :: nat where "OFFSET_PREV_LSN = 16"
definition OFFSET_LOG_DATA :: nat where "OFFSET_LOG_DATA = 20"

text \<open>\<open>enum LogType: int\<close>, \<open>UPDATE = 0\<close> onwards.\<close>

primrec logtype_code :: "LogType \<Rightarrow> int" where
  "logtype_code UPDATE = 0"
| "logtype_code INSERT = 1"
| "logtype_code DELETE = 2"
| "logtype_code LT_begin = 3"
| "logtype_code LT_commit = 4"
| "logtype_code ABORT = 5"
| "logtype_code IX_INSERT = 6"
| "logtype_code IX_DELETE = 7"

definition logtype_of_code :: "int \<Rightarrow> LogType option" where
  "logtype_of_code k =
     (if k = 0 then Some UPDATE else if k = 1 then Some INSERT else if k = 2 then Some DELETE
      else if k = 3 then Some LT_begin else if k = 4 then Some LT_commit else if k = 5 then Some ABORT
      else if k = 6 then Some IX_INSERT else if k = 7 then Some IX_DELETE else None)"

section \<open>Serialization\<close>

text \<open>\<open>LogRecord::serialize\<close>: the five header fields.\<close>

definition ser_header :: "log_record \<Rightarrow> 8 word list" where
  "ser_header r =
     le_enc 4 (logtype_code (log_type (payload r))) @ le_enc 4 (lr_lsn r) @ le_enc 4 (int (log_tot_len r)) @
     le_enc 4 (int (lr_tid r)) @ le_enc 4 (lr_prev_lsn r)"

text \<open>An \<open>RmRecord\<close> image as the payloads copy it: its \<open>int\<close> size, then its bytes;
  a \<open>Rid\<close> as its two \<open>int\<close>s; a table name as its \<open>size_t\<close> length and its characters.\<close>

definition ser_value :: "rm_record \<Rightarrow> 8 word list" where
  "ser_value v = le_enc 4 (int (length v)) @ v"

definition ser_rid :: "Rid \<Rightarrow> 8 word list" where
  "ser_rid r = le_enc 4 (rid_page_no r) @ le_enc 4 (rid_slot_no r)"

definition ser_name :: "table_name \<Rightarrow> 8 word list" where
  "ser_name t = le_enc 8 (int (length t)) @ map byte_of_char t"

text \<open>The payload of each \<open>serialize\<close> override; an update writes the old image
  before the new one.\<close>

primrec ser_payload :: "log_payload \<Rightarrow> 8 word list" where
  "ser_payload BeginLog = []"
| "ser_payload CommitLog = []"
| "ser_payload AbortLog = []"
| "ser_payload (InsertLog v r t) = ser_value v @ ser_rid r @ ser_name t"
| "ser_payload (DeleteLog v r t) = ser_value v @ ser_rid r @ ser_name t"
| "ser_payload (UpdateLog new old r t) = ser_value old @ ser_value new @ ser_rid r @ ser_name t"

definition serialize :: "log_record \<Rightarrow> 8 word list" where
  "serialize r = ser_header r @ ser_payload (payload r)"

text \<open>The bytes \<open>add_log_to_buffer\<close> writes for a sequence of records, one after the
  other; \<open>flush_log_to_disk\<close> appends the buffer's bytes to the log file.\<close>

definition log_bytes :: "log_record list \<Rightarrow> 8 word list" where
  "log_bytes rs = concat (map serialize rs)"

section \<open>Deserialization\<close>

text \<open>The reads of \<open>deserialize\<close> at an offset of the buffer.\<close>

definition get_i32 :: "8 word list \<Rightarrow> nat \<Rightarrow> int option" where
  "get_i32 buf off = rd_i32 (drop off buf)"

definition get_u32 :: "8 word list \<Rightarrow> nat \<Rightarrow> nat option" where
  "get_u32 buf off = rd_unsigned 4 (drop off buf)"

definition get_size_t :: "8 word list \<Rightarrow> nat \<Rightarrow> nat option" where
  "get_size_t buf off = rd_unsigned 8 (drop off buf)"

text \<open>\<open>RmRecord::Deserialize\<close> (\<open>record/rm_defs.h\<close>, not among the sources): the size,
  then that many bytes; a negative size fails the allocation.\<close>

definition deser_value :: "8 word list \<Rightarrow> nat \<Rightarrow> rm_record option" where
  "deser_value buf off =
     do { n \<leftarrow> get_i32 buf off;
          if n < 0 \<or> length buf < off + 4 + nat n then None
          else Some (take (nat n) (drop (off + 4) buf)) }"

definition deser_rid :: "8 word list \<Rightarrow> nat \<Rightarrow> Rid option" where
  "deser_rid buf off = do { p \<leftarrow> get_i32 buf off; s \<leftarrow> get_i32 buf (off + 4); Some (Rid p s) }"

definition deser_name :: "8 word list \<Rightarrow> nat \<Rightarrow> table_name option" where
  "deser_name buf off =
     do { n \<leftarrow> get_size_t buf off;
          if length buf < off + 8 + n then None
          else Some (map char_of_byte (take n (drop (off + 8) buf))) }"

text \<open>\<open>LogRecord::deserialize\<close>: type code, lsn, total length, transaction id and
  prev-lsn.\<close>

definition deser_header :: "8 word list \<Rightarrow> nat \<Rightarrow> (int \<times> lsn \<times> nat \<times> int \<times> lsn) option" where
  "deser_header buf off =
     do { ty \<leftarrow> get_i32 buf (off + OFFSET_LOG_TYPE);
          l \<leftarrow> get_i32 buf (off + OFFSET_LSN);
          tot \<leftarrow> get_u32 buf (off + OFFSET_LOG_TOT_LEN);
          tid \<leftarrow> get_i32 buf (off + OFFSET_LOG_TID);
          prev \<leftarrow> get_i32 buf (off + OFFSET_PREV_LSN);
          Some (ty, l, tot, tid, prev) }"

text \<open>The payload part of \<open>InsertLogRecord::deserialize\<close> and
  \<open>DeleteLogRecord::deserialize\<close>: the image, the rid after it, then the name.\<close>

definition deser_image_rid_name :: "8 word list \<Rightarrow> nat \<Rightarrow> (rm_record \<times> Rid \<times> table_name) option" where
  "deser_image_rid_name buf off =
     do { v \<leftarrow> deser_value buf (off + OFFSET_LOG_DATA);
          let q = off + OFFSET_LOG_DATA + length v + 4;
          r \<leftarrow> deser_rid buf q;
          t \<leftarrow> deser_name buf (q + 8);
          Some (v, r, t) }"

text \<open>\<open>UpdateLogRecord::deserialize\<close>: the old image, the new one, the rid, the name.\<close>

definition deser_update :: "8 word list \<Rightarrow> nat \<Rightarrow> log_payload option" where
  "deser_update buf off =
     do { old \<leftarrow> deser_value buf (off + OFFSET_LOG_DATA);
          let q1 = off + OFFSET_LOG_DATA + length old + 4;
          new \<leftarrow> deser_value buf q1;
          let q2 = q1 + length new + 4;
          r \<leftarrow> deser_rid buf q2;
          t \<leftarrow> deser_name buf (q2 + 8);
          Some (UpdateLog new old r t) }"

text \<open>Why reading the log stops: a field read past the end of the buffer,
  \<open>exit(1)\<close> on a zero total length, or a failed \<open>assert(0)\<close> on an index record or an
  unknown type.\<close>

datatype parse_error = ReadPastEnd | LogExit | ParseAssertFailure

text \<open>The branch of \<open>parseLog\<close> on the type read from the header: the payload of
  the matching record class.\<close>

definition deser_payload :: "int \<Rightarrow> 8 word list \<Rightarrow> nat \<Rightarrow> parse_error + log_payload" where
  "deser_payload ty buf off =
     (case logtype_of_code ty of
        Some LT_begin \<Rightarrow> Inr BeginLog
      | Some LT_commit \<Rightarrow> Inr CommitLog
      | Some ABORT \<Rightarrow> Inr AbortLog
      | Some DELETE \<Rightarrow> (case deser_image_rid_name buf off of
                          None \<Rightarrow> Inl ReadPastEnd | Some (v, r, t) \<Rightarrow> Inr (DeleteLog v r t))
      | Some INSERT \<Rightarrow> (case deser_image_rid_name buf off of
                          None \<Rightarrow> Inl ReadPastEnd | Some (v, r, t) \<Rightarrow> Inr (InsertLog v r t))
      | Some UPDATE \<Rightarrow> (case deser_update buf off of None \<Rightarrow> Inl ReadPastEnd | Some p \<Rightarrow> Inr p)
      | _ \<Rightarrow> Inl ParseAssertFailure)"

text \<open>The loop of \<open>parseLog\<close> from an offset: read the header, stop with \<open>exit(1)\<close>
  on a zero length, read the record, advance by its total length and stop once the
  offset reaches the file size. Every round advances the offset, so the loop ends.\<close>

function parse_from :: "8 word list \<Rightarrow> nat \<Rightarrow> parse_error + log_record list" where
  "parse_from buf off =
     (case deser_header buf off of
        None \<Rightarrow> Inl ReadPastEnd
      | Some (ty, l, tot, tid, prev) \<Rightarrow>
          if tot = 0 then Inl LogExit
          else (case deser_payload ty buf off of
                  Inl e \<Rightarrow> Inl e
                | Inr p \<Rightarrow>
                    (let r = \<lparr>lr_lsn = l, lr_tid = nat tid, lr_prev_lsn = prev, payload = p\<rparr>
                     in if length buf \<le> off + tot then Inr [r]
                        else (case parse_from buf (off + tot) of
                                Inl e \<Rightarrow> Inl e
                              | Inr rs \<Rightarrow> Inr (r # rs)))))"
  by pat_completeness auto
termination
  by (relation "measure (\<lambda>(buf, off). length buf - off)") auto

declare parse_from.simps [simp del]

text \<open>\<open>parseLog\<close>: nothing is read from an empty log file.\<close>

definition parse_log :: "8 word list \<Rightarrow> parse_error + log_record list" where
  "parse_log buf = (if length buf = 0 then Inr [] else parse_from buf 0)"

text \<open>\<open>analyze\<close> with the tail of \<open>parseLog\<close>: the log manager's \<open>global_lsn_\<close>
  becomes the number of records read and \<open>persist_lsn_\<close> the index of the last one.\<close>

definition analyze :: "8 word list \<Rightarrow> log_manager \<Rightarrow> parse_error + (log_record list \<times> log_manager)" where
  "analyze buf lm =
     (case parse_log buf of
        Inl e \<Rightarrow> Inl e
      | Inr rs \<Rightarrow> Inr (rs, lm\<lparr>global_lsn := int (length rs), persist_lsn := int (length rs) - 1\<rparr>))"

text \<open>The records a well-formed log holds: every \<open>int\<close> field fits 32 bits, the
  transaction id is a non-negative \<open>txn_id_t\<close>, and the total length fits its
  \<open>uint32_t\<close>.\<close>

definition int32_ok :: "int \<Rightarrow> bool" where
  "int32_ok x \<longleftrightarrow> - (2 ^ 31) \<le> x \<and> x < 2 ^ 31"

primrec payload_ok :: "log_payload \<Rightarrow> bool" where
  "payload_ok BeginLog = True"
| "payload_ok CommitLog = True"
| "payload_ok AbortLog = True"
| "payload_ok (InsertLog v r t) = (int32_ok (rid_page_no r) \<and> int32_ok (rid_slot_no r))"
| "payload_ok (DeleteLog v r t) = (int32_ok (rid_page_no r) \<and> int32_ok (rid_slot_no r))"
| "payload_ok (UpdateLog new old r t) = (int32_ok (rid_page_no r) \<and> int32_ok (rid_slot_no r))"

definition record_ok :: "log_record \<Rightarrow> bool" where
  "record_ok r \<longleftrightarrow> int32_ok (lr_lsn r) \<and> int32_ok (lr_prev_lsn r) \<and> int (lr_tid r) < 2 ^ 31 \<and>
     log_tot_len r < 2 ^ 31 \<and> payload_ok (payload r)"

text \<open>A begin, an update and a commit of transaction 1, for the witnesses.\<close>

definition demo_log :: "log_record list" where
  "demo_log =
     [\<lparr>lr_lsn = 0, lr_tid = 1, lr_prev_lsn = -1, payload = BeginLog\<rparr>,
      \<lparr>lr_lsn = 1, lr_tid = 1, lr_prev_lsn = -1, payload = UpdateLog [1, 2] [3] (Rid 1 2) ''t''\<rparr>,
      \<lparr>lr_lsn = 2, lr_tid = 1, lr_prev_lsn = -1, payload = CommitLog\<rparr>]"

section \<open>Reading back what was written\<close>

lemma length_ser_payload [simp]: "length (ser_payload p) = payload_len p"
  by (cases p) (simp_all add: ser_value_def ser_rid_def ser_name_def)

lemma length_ser_header [simp]: "length (ser_header r) = LOG_HEADER_SIZE"
  by (simp add: ser_header_def LOG_HEADER_SIZE_def)

lemma length_serialize: "length (serialize r) = log_tot_len r"
  by (simp add: serialize_def log_tot_len_def)

lemma get_i32_at:
  "buf = pre @ le_enc 4 x @ rest \<Longrightarrow> length pre = q \<Longrightarrow> int32_ok x \<Longrightarrow> get_i32 buf q = Some x"
  by (simp add: get_i32_def int32_ok_def)

lemma get_u32_at:
  "buf = pre @ le_enc 4 (int x) @ rest \<Longrightarrow> length pre = q \<Longrightarrow> x < 2 ^ 32 \<Longrightarrow> get_u32 buf q = Some x"
  by (simp add: get_u32_def)

lemma deser_value_at:
  "buf = pre @ ser_value v @ rest \<Longrightarrow> length pre = q \<Longrightarrow> length v < 2 ^ 31 \<Longrightarrow> deser_value buf q = Some v"
  by (simp add: deser_value_def get_i32_def ser_value_def)

lemma deser_rid_at:
  "buf = pre @ ser_rid r @ rest \<Longrightarrow> length pre = q \<Longrightarrow> int32_ok (rid_page_no r) \<Longrightarrow> int32_ok (rid_slot_no r) \<Longrightarrow>
   deser_rid buf q = Some r"
  by (simp add: deser_rid_def get_i32_def ser_rid_def int32_ok_def)

lemma deser_name_at:
  "buf = pre @ ser_name t @ rest \<Longrightarrow> length pre = q \<Longrightarrow> length t < 2 ^ 64 \<Longrightarrow> deser_name buf q = Some t"
  by (simp add: deser_name_def get_size_t_def ser_name_def)

lemma deser_image_rid_name_at:
  assumes "buf = pre @ ser_value v @ ser_rid r @ ser_name t @ rest" "length pre = off + OFFSET_LOG_DATA"
    "length v < 2 ^ 31" "int32_ok (rid_page_no r)" "int32_ok (rid_slot_no r)" "length t < 2 ^ 64"
  shows "deser_image_rid_name buf off = Some (v, r, t)"
proof -
  have "deser_value buf (off + OFFSET_LOG_DATA) = Some v"
    using assms by (intro deser_value_at) auto
  moreover have "deser_rid buf (off + OFFSET_LOG_DATA + length v + 4) = Some r"
    using assms by (intro deser_rid_at [where pre = "pre @ ser_value v"]) (auto simp: ser_value_def)
  moreover have "deser_name buf (off + OFFSET_LOG_DATA + length v + 4 + 8) = Some t"
    using assms by (intro deser_name_at [where pre = "pre @ ser_value v @ ser_rid r"]) (auto simp: ser_value_def ser_rid_def)
  ultimately show ?thesis by (simp add: deser_image_rid_name_def)
qed

lemma deser_update_at:
  assumes "buf = pre @ ser_value old @ ser_value new @ ser_rid r @ ser_name t @ rest" "length pre = off + OFFSET_LOG_DATA"
    "length old < 2 ^ 31" "length new < 2 ^ 31" "int32_ok (rid_page_no r)" "int32_ok (rid_slot_no r)" "length t < 2 ^ 64"
  shows "deser_update buf off = Some (UpdateLog new old r t)"
proof -
  have "deser_value buf (off + OFFSET_LOG_DATA) = Some old"
    using assms by (intro deser_value_at) auto
  moreover have "deser_value buf (off + OFFSET_LOG_DATA + length old + 4) = Some new"
    using assms by (intro deser_value_at [where pre = "pre @ ser_value old"]) (auto simp: ser_value_def)
  moreover have "deser_rid buf (off + OFFSET_LOG_DATA + length old + 4 + length new + 4) = Some r"
    using assms by (intro deser_rid_at [where pre = "pre @ ser_value old @ ser_value new"]) (auto simp: ser_value_def)
  moreover have "deser_name buf (off + OFFSET_LOG_DATA + length old + 4 + length new + 4 + 8) = Some t"
    using assms by (intro deser_name_at [where pre = "pre @ ser_value old @ ser_value new @ ser_rid r"])
      (auto simp: ser_value_def ser_rid_def)
  ultimately show ?thesis by (simp add: deser_update_def)
qed

lemma deser_header_at:
  assumes "buf = pre @ serialize r @ rest" "length pre = off" "record_ok r"
  shows "deser_header buf off =
           Some (logtype_code (log_type (payload r)), lr_lsn r, log_tot_len r, int (lr_tid r), lr_prev_lsn r)"
proof -
  let ?ty = "logtype_code (log_type (payload r))"
  have code: "int32_ok (logtype_code k)" for k by (cases k) (simp_all add: int32_ok_def)
  have ok: "int32_ok (lr_lsn r)" "int32_ok (lr_prev_lsn r)" "int32_ok (int (lr_tid r))" "log_tot_len r < 2 ^ 32"
    using assms(3) by (simp_all add: record_ok_def int32_ok_def)
  have b: "buf = pre @ le_enc 4 ?ty @ le_enc 4 (lr_lsn r) @ le_enc 4 (int (log_tot_len r)) @
                 le_enc 4 (int (lr_tid r)) @ le_enc 4 (lr_prev_lsn r) @ ser_payload (payload r) @ rest"
    using assms(1) by (simp add: serialize_def ser_header_def)
  have "get_i32 buf off = Some ?ty"
    using b assms(2) code by (intro get_i32_at) auto
  moreover have "get_i32 buf (off + 4) = Some (lr_lsn r)"
    using b assms(2) ok by (intro get_i32_at [where pre = "pre @ le_enc 4 ?ty"]) auto
  moreover have "get_u32 buf (off + 8) = Some (log_tot_len r)"
    using b assms(2) ok by (intro get_u32_at [where pre = "pre @ le_enc 4 ?ty @ le_enc 4 (lr_lsn r)"]) auto
  moreover have "get_i32 buf (off + 12) = Some (int (lr_tid r))"
    using b assms(2) ok
    by (intro get_i32_at [where pre = "pre @ le_enc 4 ?ty @ le_enc 4 (lr_lsn r) @ le_enc 4 (int (log_tot_len r))"]) auto
  moreover have "get_i32 buf (off + 16) = Some (lr_prev_lsn r)"
    using b assms(2) ok
    by (intro get_i32_at [where pre = "pre @ le_enc 4 ?ty @ le_enc 4 (lr_lsn r) @ le_enc 4 (int (log_tot_len r)) @
                                       le_enc 4 (int (lr_tid r))"]) auto
  ultimately show ?thesis
    by (simp add: deser_header_def OFFSET_LOG_TYPE_def OFFSET_LSN_def OFFSET_LOG_TOT_LEN_def OFFSET_LOG_TID_def
        OFFSET_PREV_LSN_def)
qed

lemma logtype_of_code_code [simp]: "logtype_of_code (logtype_code k) = Some k"
  by (cases k) (simp_all add: logtype_of_code_def)

lemma payload_len_bounds:
  "length v < 2 ^ 31 \<and> length t < 2 ^ 64" if "payload_len p < 2 ^ 31"
    "p = InsertLog v r t \<or> p = DeleteLog v r t \<or> (\<exists>w. p = UpdateLog v w r t \<or> p = UpdateLog w v r t)"
  using that by auto

lemma deser_payload_at:
  assumes "buf = pre @ serialize r @ rest" "length pre = off" "record_ok r"
  shows "deser_payload (logtype_code (log_type (payload r))) buf off = Inr (payload r)"
proof -
  have len: "payload_len (payload r) < 2 ^ 31" and pok: "payload_ok (payload r)"
    using assms(3) by (simp_all add: record_ok_def log_tot_len_def LOG_HEADER_SIZE_def)
  have b: "buf = (pre @ ser_header r) @ ser_payload (payload r) @ rest" and
    l: "length (pre @ ser_header r) = off + OFFSET_LOG_DATA"
    using assms(1,2) by (simp_all add: serialize_def LOG_HEADER_SIZE_def OFFSET_LOG_DATA_def)
  show ?thesis
  proof (cases "payload r")
    case (InsertLog v rid t)
    have "deser_image_rid_name buf off = Some (v, rid, t)"
      using b l len pok InsertLog by (intro deser_image_rid_name_at [where pre = "pre @ ser_header r" and rest = rest]) auto
    then show ?thesis using InsertLog by (simp add: deser_payload_def logtype_of_code_def)
  next
    case (DeleteLog v rid t)
    have "deser_image_rid_name buf off = Some (v, rid, t)"
      using b l len pok DeleteLog by (intro deser_image_rid_name_at [where pre = "pre @ ser_header r" and rest = rest]) auto
    then show ?thesis using DeleteLog by (simp add: deser_payload_def logtype_of_code_def)
  next
    case (UpdateLog new old rid t)
    have "deser_update buf off = Some (UpdateLog new old rid t)"
      using b l len pok UpdateLog by (intro deser_update_at [where pre = "pre @ ser_header r" and rest = rest]) auto
    then show ?thesis using UpdateLog by (simp add: deser_payload_def logtype_of_code_def)
  qed (simp_all add: deser_payload_def logtype_of_code_def)
qed

lemma log_tot_len_pos: "0 < log_tot_len r"
  by (simp add: log_tot_len_def LOG_HEADER_SIZE_def)

lemma log_bytes_Cons [simp]: "log_bytes (r # rs) = serialize r @ log_bytes rs"
  by (simp add: log_bytes_def)

lemma log_bytes_Nil [simp]: "log_bytes [] = []"
  by (simp add: log_bytes_def)

lemma serialize_nonempty: "serialize r \<noteq> []"
  using length_serialize [of r] log_tot_len_pos [of r] by auto

lemma log_bytes_nonempty: "rs \<noteq> [] \<Longrightarrow> log_bytes rs \<noteq> []"
  by (cases rs) (simp_all add: serialize_nonempty)

lemma record_of_fields: "\<lparr>lr_lsn = lr_lsn r, lr_tid = nat (int (lr_tid r)), lr_prev_lsn = lr_prev_lsn r, payload = payload r\<rparr> = r"
  by simp

lemma parse_from_log_bytes:
  "\<forall>r \<in> set rs. record_ok r \<Longrightarrow> rs \<noteq> [] \<Longrightarrow> buf = pre @ log_bytes rs \<Longrightarrow> length pre = off \<Longrightarrow>
   parse_from buf off = Inr rs"
proof (induction rs arbitrary: pre off)
  case Nil
  then show ?case by simp
next
  case (Cons r rs)
  have ok: "record_ok r" using Cons.prems(1) by simp
  have b: "buf = pre @ serialize r @ log_bytes rs" using Cons.prems(3) by simp
  have hdr: "deser_header buf off =
      Some (logtype_code (log_type (payload r)), lr_lsn r, log_tot_len r, int (lr_tid r), lr_prev_lsn r)"
    by (rule deser_header_at [OF b Cons.prems(4) ok])
  have pl: "deser_payload (logtype_code (log_type (payload r))) buf off = Inr (payload r)"
    by (rule deser_payload_at [OF b Cons.prems(4) ok])
  have len: "length buf = off + log_tot_len r + length (log_bytes rs)"
    using b Cons.prems(4) by (simp add: length_serialize)
  show ?case
  proof (cases "rs = []")
    case True
    then show ?thesis using hdr pl len log_tot_len_pos [of r] by (simp add: parse_from.simps [of buf off])
  next
    case False
    then have "log_bytes rs \<noteq> []" by (rule log_bytes_nonempty)
    then have more: "\<not> length buf \<le> off + log_tot_len r" using len by simp
    have "parse_from buf (off + log_tot_len r) = Inr rs"
      using Cons.prems(1) False b Cons.prems(4)
      by (intro Cons.IH [where pre = "pre @ serialize r"]) (auto simp: length_serialize)
    then show ?thesis using hdr pl more log_tot_len_pos [of r] by (simp add: parse_from.simps [of buf off])
  qed
qed

text \<open>C39. Reading the log back: the bytes that \<open>serialize\<close> writes for any sequence
  of well-formed log records are parsed by \<open>parseLog\<close> into exactly those records, in
  order.\<close>

theorem parse_log_roundtrip:
  assumes "\<forall>r \<in> set rs. record_ok r"
  shows "parse_log (log_bytes rs) = Inr rs"
proof (cases "rs = []")
  case True
  then show ?thesis by (simp add: parse_log_def)
next
  case False
  then have "log_bytes rs \<noteq> []" by (rule log_bytes_nonempty)
  then show ?thesis
    using parse_from_log_bytes [OF assms False, of _ "[]"] by (simp add: parse_log_def)
qed

theorem parse_log_roundtrip_witness:
  "list_all record_ok demo_log \<and> parse_log (log_bytes demo_log) = Inr demo_log"
proof -
  have ok: "\<forall>r \<in> set demo_log. record_ok r"
    by (simp add: demo_log_def record_ok_def int32_ok_def log_tot_len_def LOG_HEADER_SIZE_def)
  show ?thesis using ok parse_log_roundtrip [OF ok] by (simp add: list_all_iff)
qed

end
