(* ===== verification/Recovery.thy ===== *)
theory Recovery
  imports Transaction_Manager Log_Serial
begin

text \<open>
  Crash recovery, \<open>recovery/log_recovery.cpp\<close>: after \<open>analyze\<close> has read the log
  (theory \<open>Log_Serial\<close>), \<open>redo\<close> replays every record forward through the heap
  methods of the open tables and builds the undo list, and \<open>undo\<close> walks the records
  backward, inverting the writes of the transactions still in the undo list with a
  compensating log record each, and writing \<open>ABORT\<close> at their \<open>BEGIN\<close>.

  \<open>is_record_stroed\<close> compares the LSN of the page's frame with the record's
  position. The frame's LSN is an input of the model (\<open>plsn\<close>): \<open>fetch_page\<close> resets it
  to \<open>INVALID_LSN\<close> and only the \<open>ENABLE_LSN\<close> code sets it, so in the configuration
  that builds it is \<open>INVALID_LSN\<close> for every page (\<open>build_page_lsn\<close>). The undo
  branches are those of that configuration (no \<open>ENABLE_LSN\<close>). The rebuild of the
  indexes at the end of \<open>undo\<close> is not modelled (the B+ tree is modelled per node only).
\<close>

section \<open>State\<close>

text \<open>The state recovery works on: the open tables \<open>sm_manager_->fhs_\<close>, the undo list
  \<open>std::set<txn_id_t> undo_list\<close> and the log manager the compensation records go to.\<close>

record recovery =
  rc_tables :: tables
  rc_undo :: "txn_id set"
  rc_log :: log_manager

text \<open>Recovery stops on: an exception of a heap method, \<open>fhs_.at\<close> of a table that is
  not open (\<open>std::out_of_range\<close>), or a failed assertion of \<open>UndoLog\<close>.\<close>

datatype rec_error = RecHeapError rm_error | TableOutOfRange table_name | RecAssertFailure

text \<open>The frame LSN of every page in the configuration that builds.\<close>

definition build_page_lsn :: "table_name \<Rightarrow> page_no \<Rightarrow> lsn" where
  "build_page_lsn t p = INVALID_LSN"

section \<open>Operations\<close>

text \<open>\<open>fhs_.at(name)\<close>.\<close>

definition fh_at :: "tables \<Rightarrow> table_name \<Rightarrow> rec_error + rm_file" where
  "fh_at ts t = (case ts t of None \<Rightarrow> Inl (TableOutOfRange t) | Some f \<Rightarrow> Inr f)"

text \<open>\<open>is_record_stroed\<close>: a page beyond the file's page count is not stored;
  otherwise the page is fetched and its LSN compared with the record's.\<close>

definition is_record_stroed :: "(table_name \<Rightarrow> page_no \<Rightarrow> lsn) \<Rightarrow> tables \<Rightarrow> table_name \<Rightarrow> page_no \<Rightarrow> lsn \<Rightarrow>
    rec_error + bool" where
  "is_record_stroed plsn ts t p now =
     (case fh_at ts t of
        Inl e \<Rightarrow> Inl e
      | Inr f \<Rightarrow>
          if num_pages f \<le> p then Inr False
          else (case fetch_page_handle f p of
                  Inl e \<Rightarrow> Inl (RecHeapError e)
                | Inr _ \<Rightarrow> Inr (now \<le> plsn t p)))"

text \<open>Running a heap method on table \<open>t\<close> and storing the file back, as the calls
  through \<open>fhs_.at(t)\<close> do.\<close>

definition on_table :: "table_name \<Rightarrow> (rm_file \<Rightarrow> (rm_error + unit) \<times> rm_file) \<Rightarrow> recovery \<Rightarrow>
    rec_error + recovery" where
  "on_table t g st =
     (case fh_at (rc_tables st) t of
        Inl e \<Rightarrow> Inl e
      | Inr f \<Rightarrow>
          (case g f of
             (Inl e, _) \<Rightarrow> Inl (RecHeapError e)
           | (Inr _, f') \<Rightarrow> Inr (st\<lparr>rc_tables := (rc_tables st)(t \<mapsto> f')\<rparr>)))"

text \<open>The heap methods without a context, as recovery calls them.\<close>

definition heap_delete :: "Rid \<Rightarrow> rm_file \<Rightarrow> (rm_error + unit) \<times> rm_file" where
  "heap_delete rid f = (case delete_record rid None f of (r, f', _) \<Rightarrow> (r, f'))"

definition heap_update :: "Rid \<Rightarrow> rm_record \<Rightarrow> rm_file \<Rightarrow> (rm_error + unit) \<times> rm_file" where
  "heap_update rid v f = (case update_record rid v None f of (r, f', _) \<Rightarrow> (r, f'))"

text \<open>\<open>RedoLog\<close>: \<open>begin\<close> enters the undo list, \<open>commit\<close> and \<open>ABORT\<close> leave it; a
  write whose page is not stored is replayed: a delete by \<open>delete_record\<close>, an insert
  by \<open>allocpage\<close> and \<open>insert_record(rid, buf)\<close>, an update by \<open>allocpage\<close> and
  \<open>update_record\<close> with the new image.\<close>

definition redo_log :: "(table_name \<Rightarrow> page_no \<Rightarrow> lsn) \<Rightarrow> log_record \<Rightarrow> lsn \<Rightarrow> recovery \<Rightarrow>
    rec_error + recovery" where
  "redo_log plsn r now st =
     (case payload r of
        BeginLog \<Rightarrow> Inr (st\<lparr>rc_undo := insert (lr_tid r) (rc_undo st)\<rparr>)
      | CommitLog \<Rightarrow> Inr (st\<lparr>rc_undo := rc_undo st - {lr_tid r}\<rparr>)
      | AbortLog \<Rightarrow> Inr (st\<lparr>rc_undo := rc_undo st - {lr_tid r}\<rparr>)
      | DeleteLog v rid t \<Rightarrow>
          (case is_record_stroed plsn (rc_tables st) t (rid_page_no rid) now of
             Inl e \<Rightarrow> Inl e
           | Inr True \<Rightarrow> Inr st
           | Inr False \<Rightarrow> on_table t (heap_delete rid) st)
      | InsertLog v rid t \<Rightarrow>
          (case is_record_stroed plsn (rc_tables st) t (rid_page_no rid) now of
             Inl e \<Rightarrow> Inl e
           | Inr True \<Rightarrow> Inr st
           | Inr False \<Rightarrow> on_table t (\<lambda>f. insert_record_at rid v (allocpage rid f)) st)
      | UpdateLog new old rid t \<Rightarrow>
          (case is_record_stroed plsn (rc_tables st) t (rid_page_no rid) now of
             Inl e \<Rightarrow> Inl e
           | Inr True \<Rightarrow> Inr st
           | Inr False \<Rightarrow> on_table t (\<lambda>f. heap_update rid new (allocpage rid f)) st))"

text \<open>\<open>redo\<close>: every record in log order, with its position as \<open>now_lsn\<close>.\<close>

fun redo_from :: "(table_name \<Rightarrow> page_no \<Rightarrow> lsn) \<Rightarrow> log_record list \<Rightarrow> lsn \<Rightarrow> recovery \<Rightarrow> rec_error + recovery" where
  "redo_from plsn [] i st = Inr st"
| "redo_from plsn (r # rs) i st =
     (case redo_log plsn r i st of Inl e \<Rightarrow> Inl e | Inr st' \<Rightarrow> redo_from plsn rs (i + 1) st')"

definition redo :: "(table_name \<Rightarrow> page_no \<Rightarrow> lsn) \<Rightarrow> log_record list \<Rightarrow> recovery \<Rightarrow> rec_error + recovery" where
  "redo plsn rs st = redo_from plsn rs 0 st"

text \<open>\<open>UndoLog\<close> without \<open>ENABLE_LSN\<close>: the \<open>begin\<close> of a transaction in the undo list
  writes its \<open>ABORT\<close> record and removes it; \<open>commit\<close> and \<open>ABORT\<close> assert that their
  transaction is not in the list; a write of a transaction in the list is inverted
  after its compensation record (an insert by \<open>delete_record\<close>, a delete by
  \<open>insert_record(rid, buf)\<close>, an update by \<open>update_record\<close> with the old image).\<close>

definition undo_log :: "log_record \<Rightarrow> recovery \<Rightarrow> rec_error + recovery" where
  "undo_log r st =
     (let tid = lr_tid r; live = tid \<in> rc_undo st; lm = rc_log st
      in case payload r of
        BeginLog \<Rightarrow>
          Inr (if live then st\<lparr>rc_log := add_abort_log_record tid lm, rc_undo := rc_undo st - {tid}\<rparr> else st)
      | CommitLog \<Rightarrow> (if live then Inl RecAssertFailure else Inr st)
      | AbortLog \<Rightarrow> (if live then Inl RecAssertFailure else Inr st)
      | DeleteLog v rid t \<Rightarrow>
          (if live then on_table t (insert_record_at rid v) (st\<lparr>rc_log := add_insert_log_record tid v rid t lm\<rparr>)
           else Inr st)
      | InsertLog v rid t \<Rightarrow>
          (if live then on_table t (heap_delete rid) (st\<lparr>rc_log := add_delete_log_record tid v rid t lm\<rparr>)
           else Inr st)
      | UpdateLog new old rid t \<Rightarrow>
          (if live then on_table t (heap_update rid old) (st\<lparr>rc_log := add_update_log_record tid old new rid t lm\<rparr>)
           else Inr st))"

text \<open>\<open>undo\<close>: the records from the last one back, stopping as soon as the undo list
  is empty. The list given is already reversed.\<close>

fun undo_from :: "log_record list \<Rightarrow> recovery \<Rightarrow> rec_error + recovery" where
  "undo_from [] st = Inr st"
| "undo_from (r # rs) st =
     (if rc_undo st = {} then Inr st
      else case undo_log r st of Inl e \<Rightarrow> Inl e | Inr st' \<Rightarrow> undo_from rs st')"

definition undo :: "log_record list \<Rightarrow> recovery \<Rightarrow> rec_error + recovery" where
  "undo rs st = undo_from (rev rs) st"

text \<open>The write that a log record of a write describes, as the write set holds it:
  the inserted or deleted image, or the image an update overwrote.\<close>

definition log_write :: "log_record \<Rightarrow> write_record option" where
  "log_write r =
     (case payload r of
        InsertLog v rid t \<Rightarrow> Some \<lparr>wr_type = INSERT_TUPLE, wr_tab_name = t, wr_rid = rid, wr_record = v\<rparr>
      | DeleteLog v rid t \<Rightarrow> Some \<lparr>wr_type = DELETE_TUPLE, wr_tab_name = t, wr_rid = rid, wr_record = v\<rparr>
      | UpdateLog new old rid t \<Rightarrow> Some \<lparr>wr_type = UPDATE_TUPLE, wr_tab_name = t, wr_rid = rid, wr_record = old\<rparr>
      | _ \<Rightarrow> None)"

text \<open>The three phases on the bytes of the log file, from an empty undo list.\<close>

datatype recover_error = AnalyzeError parse_error | ReplayError rec_error

definition recover :: "(table_name \<Rightarrow> page_no \<Rightarrow> lsn) \<Rightarrow> 8 word list \<Rightarrow> tables \<Rightarrow> log_manager \<Rightarrow>
    recover_error + recovery" where
  "recover plsn bytes ts lm =
     (case analyze bytes lm of
        Inl e \<Rightarrow> Inl (AnalyzeError e)
      | Inr (rs, lm1) \<Rightarrow>
          (case redo plsn rs \<lparr>rc_tables = ts, rc_undo = {}, rc_log = lm1\<rparr> of
             Inl e \<Rightarrow> Inl (ReplayError e)
           | Inr st \<Rightarrow> (case undo rs st of Inl e \<Rightarrow> Inl (ReplayError e) | Inr st' \<Rightarrow> Inr st')))"

text \<open>A recovery state over \<open>demo_tables\<close> with transaction 7 unfinished, and its
  log: the begin, an insert and a delete of transaction 7.\<close>

definition demo_recovery :: recovery where
  "demo_recovery = \<lparr>rc_tables = demo_tables, rc_undo = {7}, rc_log = log_init\<rparr>"

definition demo_undo_log :: "log_record list" where
  "demo_undo_log =
     [\<lparr>lr_lsn = 0, lr_tid = 7, lr_prev_lsn = -1, payload = BeginLog\<rparr>,
      \<lparr>lr_lsn = 1, lr_tid = 7, lr_prev_lsn = -1, payload = InsertLog [1, 1] (Rid 1 0) ''t''\<rparr>,
      \<lparr>lr_lsn = 2, lr_tid = 7, lr_prev_lsn = -1, payload = DeleteLog [5, 6] (Rid 2 1) ''t''\<rparr>]"

section \<open>Redo and undo\<close>

lemma fh_at_Some [simp]: "ts t = Some f \<Longrightarrow> fh_at ts t = Inr f"
  by (simp add: fh_at_def)

lemma on_table_Inr:
  "rc_tables st t = Some f \<Longrightarrow> g f = (Inr u, f') \<Longrightarrow> on_table t g st = Inr (st\<lparr>rc_tables := (rc_tables st)(t \<mapsto> f')\<rparr>)"
  by (simp add: on_table_def)

lemma on_table_Inl:
  "rc_tables st t = Some f \<Longrightarrow> g f = (Inl e, f') \<Longrightarrow> on_table t g st = Inl (RecHeapError e)"
  by (simp add: on_table_def)

lemma allocpage_existing: "rid_page_no rid < num_pages f \<Longrightarrow> allocpage rid f = f"
  by (simp add: allocpage.simps [of rid f])

lemma stored_in_build:
  assumes "ts t = Some f" "heap_inv f" "pages f p = Some pg" "0 \<le> now"
  shows "is_record_stroed build_page_lsn ts t p now = Inr False"
  using assms inv_dom [OF assms(2,3)] fetch_existing [OF assms(2,3)]
  by (simp add: is_record_stroed_def build_page_lsn_def INVALID_LSN_def)

text \<open>In the configuration that builds, \<open>redo\<close> replays an insert whose record is
  already on its page, and \<open>insert_record(rid, buf)\<close> fails its assertion.\<close>

theorem redo_reapplies_stored_insert:
  assumes t: "rc_tables st t = Some f" and inv: "heap_inv f" and occ: "heap_abs f rid \<noteq> None"
    and now: "0 \<le> now" and r: "payload r = InsertLog v rid t"
  shows "redo_log build_page_lsn r now st = Inl (RecHeapError RmAssertFailure)"
proof -
  obtain pg where pg: "pages f (rid_page_no rid) = Some pg" and set: "is_set (bitmap pg) (rid_slot_no rid)"
    using abs_some_page [OF occ] by blast
  have "allocpage rid f = f" using inv_dom [OF inv pg] by (simp add: allocpage_existing)
  then have "insert_record_at rid v (allocpage rid f) = (Inl RmAssertFailure, f)"
    using fetch_existing [OF inv pg] set by (simp add: insert_record_at_def)
  then show ?thesis
    using r stored_in_build [of "rc_tables st" t f, OF t inv pg now] on_table_Inl [OF t] by (simp add: redo_log_def)
qed

theorem redo_reapplies_stored_insert_witness:
  "redo_log build_page_lsn \<lparr>lr_lsn = 1, lr_tid = 7, lr_prev_lsn = -1, payload = InsertLog [1, 1] (Rid 1 0) ''t''\<rparr> 1
     demo_recovery = Inl (RecHeapError RmAssertFailure)"
proof -
  have "heap_abs demo_file (Rid 1 0) \<noteq> None" by (simp add: heap_abs_def demo_file_def is_set_def)
  then show ?thesis
    using redo_reapplies_stored_insert [of demo_recovery "''t''" demo_file, OF _ demo_file_inv]
    by (simp add: demo_recovery_def demo_tables_def)
qed

text \<open>\<open>redo\<close> of a delete on a page the file does not have yet does not allocate it,
  unlike the insert and update branches: \<open>delete_record\<close> fails to fetch the page.\<close>

theorem redo_delete_beyond_file:
  assumes t: "rc_tables st t = Some f" and inv: "heap_inv f" and p: "num_pages f \<le> rid_page_no rid"
    and r: "payload r = DeleteLog v rid t"
  shows "redo_log plsn r now st = Inl (RecHeapError (DiskIoError (rid_page_no rid)))"
proof -
  have "pages f (rid_page_no rid) = None" using inv_outside [OF inv] p by simp
  moreover have "rid_page_no rid \<noteq> INVALID_PAGE_ID" using inv_pos [OF inv] p by (simp add: INVALID_PAGE_ID_def)
  ultimately have "heap_delete rid f = (Inl (DiskIoError (rid_page_no rid)), f)"
    by (simp add: heap_delete_def delete_record_def fetch_page_handle_def Let_def)
  then show ?thesis
    using t p r on_table_Inl [OF t] by (simp add: redo_log_def is_record_stroed_def)
qed

theorem redo_delete_beyond_file_witness:
  "redo_log build_page_lsn \<lparr>lr_lsn = 1, lr_tid = 7, lr_prev_lsn = -1, payload = DeleteLog [1, 1] (Rid 5 0) ''t''\<rparr> 1
     demo_recovery = Inl (RecHeapError (DiskIoError 5))"
  using redo_delete_beyond_file [of demo_recovery "''t''" demo_file "Rid 5 0", OF _ demo_file_inv]
  by (simp add: demo_recovery_def demo_tables_def demo_file_def)

lemma undo_log_step:
  assumes inv: "tables_inv (rc_tables st)" and live: "lr_tid r \<in> rc_undo st" and w: "log_write r = Some w"
    and en: "undo_enabled w (tables_view (rc_tables st)) (tables_shape (rc_tables st))"
  shows "\<exists>st'. undo_log r st = Inr st' \<and> tables_inv (rc_tables st') \<and>
           tables_view (rc_tables st') = undo_view w (tables_view (rc_tables st)) \<and>
           tables_shape (rc_tables st') = tables_shape (rc_tables st) \<and> rc_undo st' = rc_undo st"
proof -
  let ?ts = "rc_tables st" and ?n = "wr_tab_name w" and ?rid = "wr_rid w" and ?r = "wr_record w"
  obtain f where f: "?ts ?n = Some f"
    using en by (auto simp: undo_enabled_def tables_view_def split: option.splits)
  have hi: "heap_inv f" and fn: "file_name f = ?n" using tables_invD [OF inv f] by auto
  have en': "slot_in_range f ?rid \<and> (case wr_type w of
        INSERT_TUPLE \<Rightarrow> heap_abs f ?rid \<noteq> None
      | DELETE_TUPLE \<Rightarrow> heap_abs f ?rid = None \<and> rid_page_no ?rid \<in> dom (pages f) \<and> length ?r \<le> record_size f
      | UPDATE_TUPLE \<Rightarrow> heap_abs f ?rid \<noteq> None \<and> length ?r \<le> record_size f)"
    using en f by (simp add: undo_enabled_def tables_view_def tables_shape_def slot_in_range_def)
  have vw: "the (tables_view ?ts ?n) = heap_abs f" using f by (simp add: tables_view_def)
  have f': "rc_tables (st\<lparr>rc_log := lm\<rparr>) ?n = Some f" for lm using f by simp
  show ?thesis
  proof (cases "payload r")
    case (InsertLog v rid t)
    then have wt: "wr_type w = INSERT_TUPLE" "?n = t" "?rid = rid" "?r = v" using w by (auto simp: log_write_def)
    then have occ: "heap_abs f ?rid \<noteq> None" using en' by simp
    obtain f' where del: "delete_record ?rid None f = (Inr (), f', None)" using delete_succeeds [OF hi occ] by blast
    note eff = delete_record_effect [OF hi conjunct1 [OF en'] del]
    have "undo_log r st = Inr (st\<lparr>rc_log := add_delete_log_record (lr_tid r) v rid t (rc_log st),
                                   rc_tables := ?ts(?n \<mapsto> f')\<rparr>)"
      using live InsertLog wt on_table_Inr [OF f' [of "add_delete_log_record (lr_tid r) v rid t (rc_log st)"], of "heap_delete rid" _ f']
        del by (simp add: undo_log_def heap_delete_def)
    then show ?thesis
      using tables_inv_upd [OF inv] eff fn shape_upd [of ?ts ?n f, OF f] vw wt
      by (auto simp: view_upd undo_view_def same_hdr_def)
  next
    case (DeleteLog v rid t)
    then have wt: "wr_type w = DELETE_TUPLE" "?n = t" "?rid = rid" "?r = v" using w by (auto simp: log_write_def)
    then have fr: "heap_abs f ?rid = None" and pg: "pages f (rid_page_no ?rid) \<noteq> None"
      and len: "length ?r \<le> record_size f" using en' by auto
    obtain f' where ins: "insert_record_at ?rid ?r f = (Inr (), f')"
      using insert_record_at_ok [OF hi conjunct1 [OF en'] pg fr] by blast
    note eff = insert_record_at_effect [OF hi conjunct1 [OF en'] ins]
    have "undo_log r st = Inr (st\<lparr>rc_log := add_insert_log_record (lr_tid r) v rid t (rc_log st),
                                   rc_tables := ?ts(?n \<mapsto> f')\<rparr>)"
      using live DeleteLog wt on_table_Inr [OF f' [of "add_insert_log_record (lr_tid r) v rid t (rc_log st)"], of "insert_record_at rid v" _ f']
        ins by (simp add: undo_log_def)
    then show ?thesis
      using tables_inv_upd [OF inv] eff fn shape_upd [of ?ts ?n f, OF f insert_record_at_dom [OF ins]] vw wt len
      by (auto simp: view_upd undo_view_def same_hdr_def)
  next
    case (UpdateLog new old rid t)
    then have wt: "wr_type w = UPDATE_TUPLE" "?n = t" "?rid = rid" "?r = old" using w by (auto simp: log_write_def)
    then have occ: "heap_abs f ?rid \<noteq> None" and len: "length ?r \<le> record_size f" using en' by auto
    obtain f' where upd: "update_record ?rid ?r None f = (Inr (), f', None)" using update_succeeds [OF hi occ] by blast
    note eff = update_record_effect [OF hi conjunct1 [OF en'] upd]
    have "undo_log r st = Inr (st\<lparr>rc_log := add_update_log_record (lr_tid r) old new rid t (rc_log st),
                                   rc_tables := ?ts(?n \<mapsto> f')\<rparr>)"
      using live UpdateLog wt on_table_Inr [OF f' [of "add_update_log_record (lr_tid r) old new rid t (rc_log st)"], of "heap_update rid old" _ f']
        upd by (simp add: undo_log_def heap_update_def)
    then show ?thesis
      using tables_inv_upd [OF inv] eff fn shape_upd [of ?ts ?n f, OF f update_record_dom [OF upd]] vw wt len
      by (auto simp: view_upd undo_view_def same_hdr_def)
  qed (use w in \<open>simp_all add: log_write_def\<close>)
qed

lemma undo_from_writes:
  assumes "tables_inv (rc_tables st)" "t \<in> rc_undo st" "\<forall>r \<in> set ws. lr_tid r = t \<and> log_write r \<noteq> None"
    "undo_chain (map (the \<circ> log_write) ws) (tables_view (rc_tables st)) (tables_shape (rc_tables st)) = Some V"
  shows "\<exists>st'. undo_from (ws @ rest) st = undo_from rest st' \<and> tables_inv (rc_tables st') \<and>
           tables_view (rc_tables st') = V \<and> rc_undo st' = rc_undo st"
  using assms
proof (induction ws arbitrary: st)
  case Nil
  then show ?case by auto
next
  case (Cons r ws)
  obtain w where w: "log_write r = Some w" and tid: "lr_tid r = t" using Cons.prems(3) by auto
  have en: "undo_enabled w (tables_view (rc_tables st)) (tables_shape (rc_tables st))"
    using Cons.prems(4) w by (simp split: if_splits)
  obtain st1 where st1: "undo_log r st = Inr st1" and inv1: "tables_inv (rc_tables st1)"
    and v1: "tables_view (rc_tables st1) = undo_view w (tables_view (rc_tables st))"
    and s1: "tables_shape (rc_tables st1) = tables_shape (rc_tables st)" and u1: "rc_undo st1 = rc_undo st"
    using undo_log_step [OF Cons.prems(1) _ w en] Cons.prems(2) tid by auto
  have ch1: "undo_chain (map (the \<circ> log_write) ws) (tables_view (rc_tables st1)) (tables_shape (rc_tables st1)) = Some V"
    using Cons.prems(4) w en v1 s1 by (simp add: comp_def)
  obtain st' where "undo_from (ws @ rest) st1 = undo_from rest st'" "tables_inv (rc_tables st')"
    "tables_view (rc_tables st') = V" "rc_undo st' = rc_undo st1"
    using Cons.IH [OF inv1 _ _ ch1] Cons.prems(2,3) u1 by auto
  moreover have "undo_from ((r # ws) @ rest) st = undo_from (ws @ rest) st1"
    using st1 Cons.prems(2) by auto
  ultimately show ?case using u1 by auto
qed

lemma undo_from_empty: "rc_undo st = {} \<Longrightarrow> undo_from rs st = Inr st"
  by (cases rs) simp_all

text \<open>C40. Recovery rolls back an unfinished transaction: when the undo list holds
  only the transaction \<open>t\<close> whose \<open>BEGIN\<close> is followed in the log by its own inserts,
  deletes and updates, \<open>undo\<close> inverts those writes newest first without error,
  restoring the contents the tables had before them, empties the undo list and
  ends the log with an \<open>ABORT\<close> record of \<open>t\<close>.\<close>

theorem undo_rolls_back_unfinished_txn:
  assumes inv: "tables_inv (rc_tables st)" and u: "rc_undo st = {t}"
    and b: "payload b = BeginLog" "lr_tid b = t"
    and ws: "\<forall>r \<in> set ws. lr_tid r = t \<and> log_write r \<noteq> None"
    and ch: "undo_chain (map (the \<circ> log_write) (rev ws)) (tables_view (rc_tables st)) (tables_shape (rc_tables st)) = Some V0"
  shows "\<exists>st'. undo (pre @ b # ws) st = Inr st' \<and> tables_view (rc_tables st') = V0 \<and> rc_undo st' = {} \<and>
           lr_tid (last (all_records (rc_log st'))) = t \<and> payload (last (all_records (rc_log st'))) = AbortLog"
proof -
  obtain st1 where st1: "undo_from (rev ws @ b # rev pre) st = undo_from (b # rev pre) st1"
    and v1: "tables_view (rc_tables st1) = V0" and u1: "rc_undo st1 = {t}"
    using undo_from_writes [OF inv _ _ ch, of t "b # rev pre"] u ws by auto
  let ?st2 = "st1\<lparr>rc_log := add_abort_log_record t (rc_log st1), rc_undo := {}\<rparr>"
  have "undo_log b st1 = Inr ?st2" using b u1 by (simp add: undo_log_def)
  then have "undo (pre @ b # ws) st = Inr ?st2"
    using st1 u1 undo_from_empty [of ?st2] by (simp add: undo_def)
  then show ?thesis
    using v1 by (simp add: add_abort_log_record_def add_log_record_records)
qed

theorem undo_rolls_back_unfinished_txn_witness:
  "\<exists>st'. undo demo_undo_log demo_recovery = Inr st' \<and>
     tables_view (rc_tables st') = (tables_view demo_tables)(''t'' \<mapsto> (heap_abs demo_file)(Rid 1 0 := None, Rid 2 1 := Some [5, 6])) \<and>
     rc_undo st' = {} \<and> lr_tid (last (all_records (rc_log st'))) = 7 \<and> payload (last (all_records (rc_log st'))) = AbortLog"
proof -
  let ?b = "hd demo_undo_log" and ?ws = "tl demo_undo_log"
  let ?V0 = "(tables_view demo_tables)(''t'' \<mapsto> (heap_abs demo_file)(Rid 1 0 := None, Rid 2 1 := Some [5, 6]))"
  have inv: "tables_inv (rc_tables demo_recovery)"
    using demo_file_inv by (simp add: tables_inv_def demo_tables_def demo_file_def demo_recovery_def)
  have ch: "undo_chain (map (the \<circ> log_write) (rev ?ws)) (tables_view (rc_tables demo_recovery))
              (tables_shape (rc_tables demo_recovery)) = Some ?V0"
    by (simp add: demo_undo_log_def demo_recovery_def log_write_def undo_enabled_def undo_view_def
        tables_view_def tables_shape_def demo_tables_def heap_abs_def demo_file_def is_set_def fun_eq_iff)
  have "demo_undo_log = [] @ ?b # ?ws" by (simp add: demo_undo_log_def)
  then show ?thesis
    using undo_rolls_back_unfinished_txn [OF inv _ _ _ _ ch, where t = 7 and pre = "[]"]
    by (simp add: demo_undo_log_def demo_recovery_def log_write_def)
qed

end
