(* ===== verification/Values.thy ===== *)
theory Values
  imports Log_Manager
begin

text \<open>
  Typed values and their comparison: \<open>ColType\<close> and \<open>AgreType\<close> of \<open>defs.h\<close>, the
  \<open>Value\<close> and \<open>AgreValue\<close> structs, \<open>CompOp\<close>, \<open>TabCol\<close>, \<open>Condition\<close> and
  \<open>SetClause\<close> of \<open>common/common.h\<close>, and \<open>ix_compare\<close> of \<open>index/ix_index_handle.h\<close>,
  the byte comparison every predicate and every index key goes through. Column bytes
  are read as the code reads them (little-endian \<open>int\<close>, \<open>long long\<close> and IEEE-754
  \<open>float\<close> bit patterns); the union of \<open>Value\<close> is one 64-bit word whose low half is
  \<open>int_val\<close> and \<open>float_val\<close>. Float comparison follows IEEE-754 (NaN unordered,
  \<open>+0 = -0\<close>); float addition, used only by \<open>SUM\<close> over a float column, is a
  parameter of the model.
\<close>

section \<open>Types\<close>

datatype ColType = TYPE_INT | TYPE_FLOAT | TYPE_STRING | TYPE_DATETIME | TYPE_BIGINT | TYPE_UNUSE

datatype AgreType = AGRE_TYPE_MAX | AGRE_TYPE_MIN | AGRE_TYPE_SUM | AGRE_TYPE_COUNT | AGRE_TYPE_COUNT_ALL

datatype CompOp = OP_EQ | OP_NE | OP_LT | OP_GT | OP_LE | OP_GE

datatype SetOp = OP_ASSIGN | OP_PLUS | OP_MINUS | OP_INVALID

text \<open>The exceptions of \<open>common/errors.h\<close> (not among the sources) these functions
  throw, and a failed \<open>assert\<close>.\<close>

datatype value_error =
    InternalError string
  | StringOverflowError
  | ColumnNotFoundError string
  | InvalidValueError string
  | IncompatibleTypeError string string
  | ValueAssertFailure

text \<open>\<open>coltype2str\<close>: \<open>m.at(type)\<close> throws for \<open>TYPE_UNUSE\<close>.\<close>

fun coltype2str :: "ColType \<Rightarrow> string option" where
  "coltype2str TYPE_INT = Some ''INT''"
| "coltype2str TYPE_FLOAT = Some ''FLOAT''"
| "coltype2str TYPE_STRING = Some ''STRING''"
| "coltype2str TYPE_DATETIME = Some ''DATETIME''"
| "coltype2str TYPE_BIGINT = Some ''BIGINT''"
| "coltype2str TYPE_UNUSE = None"

section \<open>Reading column bytes\<close>

text \<open>\<open>*(int * )p\<close>, \<open>*(long long * )p\<close> and the bits of \<open>*(float * )p\<close>.\<close>

definition bytes_i32 :: "8 word list \<Rightarrow> int" where
  "bytes_i32 bs = sint (word_of_int (le_dec (take 4 bs)) :: 32 word)"

definition bytes_i64 :: "8 word list \<Rightarrow> int" where
  "bytes_i64 bs = sint (word_of_int (le_dec (take 8 bs)) :: 64 word)"

definition bytes_f32 :: "8 word list \<Rightarrow> 32 word" where
  "bytes_f32 bs = word_of_int (le_dec (take 4 bs))"

text \<open>IEEE-754 single precision on bit patterns: NaN has an all-ones exponent and a
  non-zero fraction; otherwise the order is that of sign and magnitude, with both
  zeros equal.\<close>

definition f32_is_nan :: "32 word \<Rightarrow> bool" where
  "f32_is_nan w \<longleftrightarrow> and w 0x7F800000 = 0x7F800000 \<and> and w 0x007FFFFF \<noteq> 0"

definition f32_key :: "32 word \<Rightarrow> int" where
  "f32_key w = (let m = uint (and w 0x7FFFFFFF) in if bit w 31 then - m else m)"

definition f32_less :: "32 word \<Rightarrow> 32 word \<Rightarrow> bool" where
  "f32_less a b \<longleftrightarrow> \<not> f32_is_nan a \<and> \<not> f32_is_nan b \<and> f32_key a < f32_key b"

definition f32_eq :: "32 word \<Rightarrow> 32 word \<Rightarrow> bool" where
  "f32_eq a b \<longleftrightarrow> \<not> f32_is_nan a \<and> \<not> f32_is_nan b \<and> f32_key a = f32_key b"

text \<open>The three-way result \<open>(a < b) ? -1 : ((a > b) ? 1 : 0)\<close>.\<close>

definition cmp3 :: "('a \<Rightarrow> 'a \<Rightarrow> bool) \<Rightarrow> 'a \<Rightarrow> 'a \<Rightarrow> int" where
  "cmp3 lt a b = (if lt a b then -1 else if lt b a then 1 else 0)"

text \<open>\<open>memcmp\<close> over \<open>n\<close> bytes: the first differing byte decides, as unsigned.\<close>

fun lexcmp :: "8 word list \<Rightarrow> 8 word list \<Rightarrow> int" where
  "lexcmp (a # as) (b # bs) = (if a < b then -1 else if b < a then 1 else lexcmp as bs)"
| "lexcmp [] [] = 0"
| "lexcmp [] (b # bs) = -1"
| "lexcmp (a # as) [] = 1"

definition memcmp :: "8 word list \<Rightarrow> 8 word list \<Rightarrow> nat \<Rightarrow> int" where
  "memcmp a b n = lexcmp (take n a) (take n b)"

section \<open>ix_compare\<close>

text \<open>\<open>ix_compare(a, b, type, col_len)\<close>.\<close>

fun ix_compare :: "8 word list \<Rightarrow> 8 word list \<Rightarrow> ColType \<Rightarrow> nat \<Rightarrow> value_error + int" where
  "ix_compare a b TYPE_INT n = Inr (cmp3 (<) (bytes_i32 a) (bytes_i32 b))"
| "ix_compare a b TYPE_BIGINT n = Inr (cmp3 (<) (bytes_i64 a) (bytes_i64 b))"
| "ix_compare a b TYPE_FLOAT n = Inr (cmp3 f32_less (bytes_f32 a) (bytes_f32 b))"
| "ix_compare a b TYPE_STRING n = Inr (memcmp a b n)"
| "ix_compare a b TYPE_DATETIME n = Inr (memcmp a b n)"
| "ix_compare a b TYPE_UNUSE n = Inl (InternalError ''Unexpected data type'')"

text \<open>The composite key version: column after column, the first non-zero result.\<close>

fun ix_compare_cols :: "8 word list \<Rightarrow> 8 word list \<Rightarrow> (ColType \<times> nat) list \<Rightarrow> value_error + int" where
  "ix_compare_cols a b [] = Inr 0"
| "ix_compare_cols a b ((ty, n) # cs) =
     (case ix_compare a b ty n of
        Inl e \<Rightarrow> Inl e
      | Inr res \<Rightarrow> if res \<noteq> 0 then Inr res else ix_compare_cols (drop n a) (drop n b) cs)"

section \<open>Value\<close>

text \<open>\<open>struct Value\<close>: the type tag, the union of \<open>int_val\<close>, \<open>float_val\<close> and
  \<open>bigint_val\<close> (one 64-bit word; the 32-bit members are its low half), the two
  strings and the raw buffer (\<open>None\<close> for the null \<open>shared_ptr\<close>).\<close>

record Value =
  val_type :: ColType
  val_union :: "64 word"
  str_val :: string
  datetime_val :: string
  raw :: "rm_record option"

definition int_val :: "Value \<Rightarrow> int" where
  "int_val v = sint (ucast (val_union v) :: 32 word)"

definition float_val :: "Value \<Rightarrow> 32 word" where
  "float_val v = ucast (val_union v)"

definition bigint_val :: "Value \<Rightarrow> int" where
  "bigint_val v = sint (val_union v)"

text \<open>Writing a 32-bit member changes the low half of the union only.\<close>

definition set_low32 :: "64 word \<Rightarrow> 32 word \<Rightarrow> 64 word" where
  "set_low32 u x = or (and u (not (mask 32))) (ucast x)"

definition set_int_val :: "int \<Rightarrow> Value \<Rightarrow> Value" where
  "set_int_val x v = v\<lparr>val_union := set_low32 (val_union v) (word_of_int x)\<rparr>"

definition set_float_val :: "32 word \<Rightarrow> Value \<Rightarrow> Value" where
  "set_float_val x v = v\<lparr>val_union := set_low32 (val_union v) x\<rparr>"

definition set_bigint_val :: "int \<Rightarrow> Value \<Rightarrow> Value" where
  "set_bigint_val x v = v\<lparr>val_union := word_of_int x\<rparr>"

definition set_str_val :: "string \<Rightarrow> Value \<Rightarrow> Value" where
  "set_str_val s v = v\<lparr>str_val := s\<rparr>"

definition set_datetime_val :: "string \<Rightarrow> Value \<Rightarrow> Value" where
  "set_datetime_val s v = v\<lparr>datetime_val := s\<rparr>"

definition set_int :: "int \<Rightarrow> Value \<Rightarrow> Value" where
  "set_int x v = set_int_val x (v\<lparr>val_type := TYPE_INT\<rparr>)"

definition set_bigint :: "int \<Rightarrow> Value \<Rightarrow> Value" where
  "set_bigint x v = set_bigint_val x (v\<lparr>val_type := TYPE_BIGINT\<rparr>)"

definition set_float :: "32 word \<Rightarrow> Value \<Rightarrow> Value" where
  "set_float x v = set_float_val x (v\<lparr>val_type := TYPE_FLOAT\<rparr>)"

definition set_str :: "string \<Rightarrow> Value \<Rightarrow> Value" where
  "set_str s v = set_str_val s (v\<lparr>val_type := TYPE_STRING\<rparr>)"

definition set_datetime :: "string \<Rightarrow> Value \<Rightarrow> Value" where
  "set_datetime s v = set_datetime_val s (v\<lparr>val_type := TYPE_DATETIME\<rparr>)"

text \<open>\<open>copy_from\<close>: the type, then the member of that type; \<open>TYPE_UNUSE\<close> fails the
  assertion.\<close>

definition copy_from :: "Value \<Rightarrow> Value \<Rightarrow> value_error + Value" where
  "copy_from src v =
     (let v1 = v\<lparr>val_type := val_type src\<rparr>
      in case val_type src of
           TYPE_INT \<Rightarrow> Inr (set_int_val (int_val src) v1)
         | TYPE_FLOAT \<Rightarrow> Inr (set_float_val (float_val src) v1)
         | TYPE_BIGINT \<Rightarrow> Inr (set_bigint_val (bigint_val src) v1)
         | TYPE_DATETIME \<Rightarrow> Inr (set_datetime_val (datetime_val src) v1)
         | TYPE_STRING \<Rightarrow> Inr (set_str_val (str_val src) v1)
         | TYPE_UNUSE \<Rightarrow> Inl ValueAssertFailure)"

text \<open>\<open>std::char_traits<char>::lt\<close>: characters compare as unsigned bytes.\<close>

definition char_less :: "char \<Rightarrow> char \<Rightarrow> bool" where
  "char_less c d \<longleftrightarrow> (of_char c :: nat) < of_char d"

text \<open>\<open>std::string::operator<\<close>: lexicographic, a proper prefix first.\<close>

fun str_less :: "string \<Rightarrow> string \<Rightarrow> bool" where
  "str_less [] (d # ds) = True"
| "str_less cs [] = False"
| "str_less (c # cs) (d # ds) = (char_less c d \<or> (c = d \<and> str_less cs ds))"

text \<open>\<open>operator<\<close> and \<open>operator==\<close>. \<open>operator<\<close> asserts that the two types
  differ, \<open>operator==\<close> that they agree; both then compare the members of the left
  operand's type. Strings compare by \<open>std::string::operator<\<close>, lexicographically
  on the characters.\<close>

definition value_less :: "Value \<Rightarrow> Value \<Rightarrow> value_error + bool" where
  "value_less a b =
     (if val_type a = val_type b then Inl ValueAssertFailure
      else case val_type a of
        TYPE_INT \<Rightarrow> Inr (int_val a < int_val b)
      | TYPE_FLOAT \<Rightarrow> Inr (f32_less (float_val a) (float_val b))
      | TYPE_BIGINT \<Rightarrow> Inr (bigint_val a < bigint_val b)
      | TYPE_DATETIME \<Rightarrow> Inr (str_less (datetime_val a) (datetime_val b))
      | TYPE_STRING \<Rightarrow> Inr (str_less (str_val a) (str_val b))
      | TYPE_UNUSE \<Rightarrow> Inl ValueAssertFailure)"

definition value_eq :: "Value \<Rightarrow> Value \<Rightarrow> value_error + bool" where
  "value_eq a b =
     (if val_type a \<noteq> val_type b then Inl ValueAssertFailure
      else case val_type a of
        TYPE_INT \<Rightarrow> Inr (int_val a = int_val b)
      | TYPE_FLOAT \<Rightarrow> Inr (f32_eq (float_val a) (float_val b))
      | TYPE_BIGINT \<Rightarrow> Inr (bigint_val a = bigint_val b)
      | TYPE_DATETIME \<Rightarrow> Inr (datetime_val a = datetime_val b)
      | TYPE_STRING \<Rightarrow> Inr (str_val a = str_val b)
      | TYPE_UNUSE \<Rightarrow> Inl ValueAssertFailure)"

text \<open>\<open>get_val_from_raw(val, len)\<close>: the member of the value's type from \<open>len\<close>
  bytes; a string keeps all \<open>len\<close> characters, padding included.\<close>

definition get_val_from_raw :: "8 word list \<Rightarrow> nat \<Rightarrow> Value \<Rightarrow> value_error + Value" where
  "get_val_from_raw bs len v =
     (case val_type v of
        TYPE_INT \<Rightarrow> if len \<noteq> 4 then Inl ValueAssertFailure else Inr (set_int_val (bytes_i32 bs) v)
      | TYPE_BIGINT \<Rightarrow> if len \<noteq> 8 then Inl ValueAssertFailure else Inr (set_bigint_val (bytes_i64 bs) v)
      | TYPE_FLOAT \<Rightarrow> if len \<noteq> 4 then Inl ValueAssertFailure else Inr (set_float_val (bytes_f32 bs) v)
      | TYPE_STRING \<Rightarrow> Inr (set_str_val (map char_of_byte (take len bs)) v)
      | TYPE_DATETIME \<Rightarrow> Inr (set_datetime_val (map char_of_byte (take len bs)) v)
      | TYPE_UNUSE \<Rightarrow> Inr v)"

text \<open>\<open>strlen(s.c_str())\<close>: the characters before the first NUL.\<close>

definition c_strlen :: "string \<Rightarrow> nat" where
  "c_strlen s = length (takeWhile (\<lambda>c. c \<noteq> CHR 0x00) s)"

text \<open>The bytes \<open>init_raw\<close> and \<open>cover_raw\<close> write into a buffer of \<open>len\<close> bytes: the
  member of the value's type; a string longer than the buffer throws, a shorter one is
  padded with zeros; a datetime must fill the buffer exactly.\<close>

definition raw_bytes :: "nat \<Rightarrow> Value \<Rightarrow> value_error + rm_record" where
  "raw_bytes len v =
     (case val_type v of
        TYPE_INT \<Rightarrow> if len \<noteq> 4 then Inl ValueAssertFailure else Inr (le_enc 4 (int_val v))
      | TYPE_BIGINT \<Rightarrow> if len \<noteq> 8 then Inl ValueAssertFailure else Inr (le_enc 8 (bigint_val v))
      | TYPE_FLOAT \<Rightarrow> if len \<noteq> 4 then Inl ValueAssertFailure else Inr (le_enc 4 (uint (float_val v)))
      | TYPE_STRING \<Rightarrow>
          if len < length (str_val v) then Inl StringOverflowError
          else Inr (map byte_of_char (str_val v) @ replicate (len - length (str_val v)) 0)
      | TYPE_DATETIME \<Rightarrow>
          if len \<noteq> c_strlen (datetime_val v) then Inl ValueAssertFailure
          else Inr (take len (map byte_of_char (datetime_val v) @ replicate len 0))
      | TYPE_UNUSE \<Rightarrow> Inr (replicate len 0))"

definition init_raw :: "nat \<Rightarrow> Value \<Rightarrow> value_error + Value" where
  "init_raw len v =
     (if raw v \<noteq> None then Inl ValueAssertFailure
      else case raw_bytes len v of Inl e \<Rightarrow> Inl e | Inr bs \<Rightarrow> Inr (v\<lparr>raw := Some bs\<rparr>))"

definition cover_raw :: "nat \<Rightarrow> Value \<Rightarrow> value_error + Value" where
  "cover_raw len v =
     (if raw v = None then Inl ValueAssertFailure
      else case raw_bytes len v of Inl e \<Rightarrow> Inl e | Inr bs \<Rightarrow> Inr (v\<lparr>raw := Some bs\<rparr>))"

text \<open>\<open>ValueHash\<close>: the member each type hashes. A datetime hashes \<open>str_val\<close> and a
  string hashes \<open>datetime_val\<close>; \<open>TYPE_UNUSE\<close> fails the assertion.\<close>

datatype hash_key = HInt int | HFloat "32 word" | HBigint int | HStr string

definition value_hash_key :: "Value \<Rightarrow> value_error + hash_key" where
  "value_hash_key v =
     (case val_type v of
        TYPE_INT \<Rightarrow> Inr (HInt (int_val v))
      | TYPE_FLOAT \<Rightarrow> Inr (HFloat (float_val v))
      | TYPE_BIGINT \<Rightarrow> Inr (HBigint (bigint_val v))
      | TYPE_DATETIME \<Rightarrow> Inr (HStr (str_val v))
      | TYPE_STRING \<Rightarrow> Inr (HStr (datetime_val v))
      | TYPE_UNUSE \<Rightarrow> Inl ValueAssertFailure)"

section \<open>Aggregates\<close>

text \<open>\<open>struct AgreValue\<close>: the aggregate, the column type, the union of \<open>int_val\<close> and
  \<open>float_val\<close> (one 32-bit word), the string buffer (\<open>None\<close> while \<open>str_val\<close> is the
  null pointer) and its length.\<close>

record AgreValue =
  agre_type :: AgreType
  agre_col_type :: ColType
  agre_num :: "32 word"
  agre_str :: "8 word list option"
  str_len :: nat

text \<open>\<open>std::numeric_limits\<close>: \<open>int\<close> min and max, and the bits of the lowest and the
  largest finite \<open>float\<close>.\<close>

definition INT_MIN :: int where "INT_MIN = - (2 ^ 31)"
definition INT_MAX :: int where "INT_MAX = 2 ^ 31 - 1"
definition FLT_LOWEST :: "32 word" where "FLT_LOWEST = 0xFF7FFFFF"
definition FLT_MAX :: "32 word" where "FLT_MAX = 0x7F7FFFFF"

text \<open>\<open>init_agre_raw(value_type, agre_type, len)\<close>: only int, float and string columns
  are aggregated; \<open>MAX\<close> starts from the least value, \<open>MIN\<close> from the greatest, \<open>SUM\<close>
  from zero (and fails its assertion on a string column).\<close>

definition init_agre_raw :: "ColType \<Rightarrow> AgreType \<Rightarrow> nat \<Rightarrow> AgreValue \<Rightarrow> value_error + AgreValue" where
  "init_agre_raw ty at len a =
     (let a1 = a\<lparr>agre_col_type := ty, agre_type := at\<rparr>
      in if ty \<noteq> TYPE_INT \<and> ty \<noteq> TYPE_FLOAT \<and> ty \<noteq> TYPE_STRING then Inl ValueAssertFailure
      else
        let a2 = (if ty = TYPE_STRING then a1\<lparr>str_len := len\<rparr> else a1);
            num = (\<lambda>x. if len \<noteq> 4 then Inl ValueAssertFailure else Inr (a2\<lparr>agre_num := x\<rparr>))
        in case at of
          AGRE_TYPE_MAX \<Rightarrow>
            (if ty = TYPE_INT then num (word_of_int INT_MIN)
             else if ty = TYPE_FLOAT then num FLT_LOWEST
             else Inr (a2\<lparr>agre_str := Some (replicate len 0)\<rparr>))
        | AGRE_TYPE_MIN \<Rightarrow>
            (if ty = TYPE_INT then num (word_of_int INT_MAX)
             else if ty = TYPE_FLOAT then num FLT_MAX
             else Inr (a2\<lparr>agre_str := Some (replicate len 0xFF)\<rparr>))
        | AGRE_TYPE_SUM \<Rightarrow>
            (if ty = TYPE_STRING then Inl ValueAssertFailure else num 0)
        | _ \<Rightarrow> Inr a2)"

text \<open>\<open>add_value(value, len)\<close>: \<open>MAX\<close> and \<open>MIN\<close> keep the larger or smaller value
  (strings by \<open>memcmp\<close> over \<open>len\<close> bytes), \<open>SUM\<close> adds: \<open>int_val += value_\<close> wraps
  around at 32 bits, and \<open>fadd\<close> is the float addition. \<open>COUNT\<close> aggregates are
  counted by the executor, not here.\<close>

definition add_value :: "(32 word \<Rightarrow> 32 word \<Rightarrow> 32 word) \<Rightarrow> 8 word list \<Rightarrow> nat \<Rightarrow> AgreValue \<Rightarrow>
    value_error + AgreValue" where
  "add_value fadd bs len a =
     (let ty = agre_col_type a; cur = agre_num a
      in case agre_type a of
        AGRE_TYPE_MAX \<Rightarrow>
          (if ty = TYPE_INT then (if len \<noteq> 4 then Inl ValueAssertFailure
                                 else Inr (if bytes_i32 bs > sint cur then a\<lparr>agre_num := word_of_int (bytes_i32 bs)\<rparr> else a))
           else if ty = TYPE_FLOAT then (if len \<noteq> 4 then Inl ValueAssertFailure
                                 else Inr (if f32_less cur (bytes_f32 bs) then a\<lparr>agre_num := bytes_f32 bs\<rparr> else a))
           else if ty = TYPE_STRING then
             (case agre_str a of None \<Rightarrow> Inl ValueAssertFailure
              | Some s \<Rightarrow> Inr (if memcmp bs s len > 0 then a\<lparr>agre_str := Some (take len bs @ drop len s)\<rparr> else a))
           else Inr a)
      | AGRE_TYPE_MIN \<Rightarrow>
          (if ty = TYPE_INT then (if len \<noteq> 4 then Inl ValueAssertFailure
                                 else Inr (if bytes_i32 bs < sint cur then a\<lparr>agre_num := word_of_int (bytes_i32 bs)\<rparr> else a))
           else if ty = TYPE_FLOAT then (if len \<noteq> 4 then Inl ValueAssertFailure
                                 else Inr (if f32_less (bytes_f32 bs) cur then a\<lparr>agre_num := bytes_f32 bs\<rparr> else a))
           else if ty = TYPE_STRING then
             (case agre_str a of None \<Rightarrow> Inl ValueAssertFailure
              | Some s \<Rightarrow> Inr (if memcmp bs s len < 0 then a\<lparr>agre_str := Some (take len bs @ drop len s)\<rparr> else a))
           else Inr a)
      | AGRE_TYPE_SUM \<Rightarrow>
          (if ty = TYPE_INT then (if len \<noteq> 4 then Inl ValueAssertFailure
                                 else Inr (a\<lparr>agre_num := cur + word_of_int (bytes_i32 bs)\<rparr>))
           else if ty = TYPE_FLOAT then (if len \<noteq> 4 then Inl ValueAssertFailure
                                 else Inr (a\<lparr>agre_num := fadd cur (bytes_f32 bs)\<rparr>))
           else if ty = TYPE_STRING then Inl ValueAssertFailure
           else Inr a)
      | _ \<Rightarrow> Inr a)"

text \<open>\<open>get_value()\<close>: the result bytes of \<open>MAX\<close>, \<open>MIN\<close> and \<open>SUM\<close>; the null
  pointer (\<open>None\<close>) for the other aggregates.\<close>

definition get_value :: "AgreValue \<Rightarrow> value_error + rm_record option" where
  "get_value a =
     (if agre_type a \<in> {AGRE_TYPE_MAX, AGRE_TYPE_MIN, AGRE_TYPE_SUM} then
        (if agre_col_type a = TYPE_INT \<or> agre_col_type a = TYPE_FLOAT then Inr (Some (le_enc 4 (uint (agre_num a))))
         else if agre_col_type a = TYPE_STRING then
           (if agre_type a = AGRE_TYPE_SUM then Inl ValueAssertFailure
            else case agre_str a of None \<Rightarrow> Inl ValueAssertFailure | Some s \<Rightarrow> Inr (Some (take (str_len a) s)))
         else Inr None)
      else Inr None)"

section \<open>Columns, conditions and set clauses\<close>

text \<open>\<open>struct TabCol\<close> with its lexicographic \<open>operator<\<close>.\<close>

record TabCol =
  tc_tab_name :: string
  tc_col_name :: string

definition tabcol_less :: "TabCol \<Rightarrow> TabCol \<Rightarrow> bool" where
  "tabcol_less x y \<longleftrightarrow>
     str_less (tc_tab_name x) (tc_tab_name y) \<or>
     (tc_tab_name x = tc_tab_name y \<and> str_less (tc_col_name x) (tc_col_name y))"

text \<open>\<open>struct Condition\<close> and \<open>is_join_eq\<close>: an equality between columns of two
  different tables.\<close>

record Condition =
  lhs_col :: TabCol
  cond_op :: CompOp
  is_rhs_val :: bool
  rhs_col :: TabCol
  rhs_val :: Value

definition is_join_eq :: "Condition \<Rightarrow> bool" where
  "is_join_eq c \<longleftrightarrow> cond_op c = OP_EQ \<and> \<not> is_rhs_val c \<and> tc_tab_name (lhs_col c) \<noteq> tc_tab_name (rhs_col c)"

record SetClause =
  set_lhs :: TabCol
  set_rhs :: Value
  set_op :: SetOp

section \<open>Comparison lemmas\<close>

lemma cmp3_antisym: "(\<And>x y. lt x y \<Longrightarrow> \<not> lt y x) \<Longrightarrow> cmp3 lt a b = - cmp3 lt b a"
  by (auto simp: cmp3_def)

lemma lexcmp_antisym: "lexcmp a b = - lexcmp b a"
  by (induction a b rule: lexcmp.induct) auto

lemma lexcmp_eq_0: "lexcmp a b = 0 \<longleftrightarrow> a = b"
  by (induction a b rule: lexcmp.induct) auto

lemma lexcmp_range: "lexcmp a b \<in> {-1, 0, 1}"
  by (induction a b rule: lexcmp.induct) auto

lemma lexcmp_trans: "lexcmp a b < 0 \<Longrightarrow> lexcmp b c < 0 \<Longrightarrow> lexcmp a c < 0"
proof (induction a arbitrary: b c)
  case Nil
  then show ?case by (cases b; cases c) auto
next
  case (Cons x xs)
  then show ?case by (cases b; cases c) (auto split: if_splits)
qed

lemma f32_less_irrefl: "\<not> f32_less a a"
  by (simp add: f32_less_def)

lemma f32_less_trans: "f32_less a b \<Longrightarrow> f32_less b c \<Longrightarrow> f32_less a c"
  by (auto simp: f32_less_def)

lemma f32_less_total: "\<not> f32_is_nan a \<Longrightarrow> \<not> f32_is_nan b \<Longrightarrow> f32_less a b \<or> f32_eq a b \<or> f32_less b a"
  by (auto simp: f32_less_def f32_eq_def)

lemma f32_nan_unordered: "f32_is_nan a \<Longrightarrow> cmp3 f32_less a b = 0 \<and> cmp3 f32_less b a = 0"
  by (simp add: cmp3_def f32_less_def)

lemma f32_zeros_equal: "f32_eq 0 0x80000000"
  by (simp add: f32_eq_def f32_is_nan_def f32_key_def)

lemma ix_compare_antisym: "ty \<noteq> TYPE_UNUSE \<Longrightarrow> ix_compare a b ty n = map_sum id uminus (ix_compare b a ty n)"
  by (cases ty) (auto simp: cmp3_def memcmp_def lexcmp_antisym [of "take n b"] f32_less_def)

lemma word_of_int_mod_len [simp]: "(word_of_int (x mod 2 ^ LENGTH('a)) :: 'a::len word) = word_of_int x"
  by (simp add: word_of_int_eq_iff take_bit_eq_mod)

lemma bytes_i32_enc [simp]: "bytes_i32 (le_enc 4 x) = sint (word_of_int x :: 32 word)"
  using word_of_int_mod_len [where 'a = 32, of x] by (simp add: bytes_i32_def)

end
