(* ===== verification/Catalog.thy ===== *)
theory Catalog
  imports Values
begin

text \<open>
  The catalog of \<open>system/sm_meta.h\<close>: column, index, table and database metadata
  (\<open>ColMeta\<close>, \<open>IndexMeta\<close>, \<open>TabMeta\<close>, \<open>DbMeta\<close>) and their lookups, among them the
  index selection of the planner (\<open>is_leftmost_match\<close>,
  \<open>is_leftmost_range_match\<close>). The \<open>std::map\<close> and \<open>std::unordered_map\<close> members
  are maps; a \<open>std::vector\<close> is a list.
\<close>

section \<open>Metadata\<close>

record ColMeta =
  cm_tab_name :: string
  cm_name :: string
  cm_type :: ColType
  cm_len :: nat
  cm_offset :: nat
  cm_index :: bool

record IndexMeta =
  im_tab_name :: string
  col_tot_len :: nat
  col_num :: nat
  im_cols :: "ColMeta list"

record TabMeta =
  tm_name :: string
  tm_cols :: "ColMeta list"
  tm_indexes :: "IndexMeta list"
  cols_hash :: "string \<rightharpoonup> nat"

text \<open>The errors of the lookups (\<open>common/errors.h\<close> and \<open>std::out_of_range\<close>).\<close>

datatype meta_error = IndexNotFoundError string "string list" | TableNotFoundError string | MetaOutOfRange string

text \<open>\<open>init_hash\<close>: each column name to its position; a later column of the same name
  overwrites an earlier one.\<close>

definition init_hash :: "TabMeta \<Rightarrow> TabMeta" where
  "init_hash tab = tab\<lparr>cols_hash := fold (\<lambda>(i, c) h. h(cm_name c \<mapsto> i)) (enumerate 0 (tm_cols tab)) (cols_hash tab)\<rparr>"

definition is_col :: "TabMeta \<Rightarrow> string \<Rightarrow> bool" where
  "is_col tab n \<longleftrightarrow> list_ex (\<lambda>c. cm_name c = n) (tm_cols tab)"

text \<open>An index whose \<open>col_num\<close> is the number of names and whose columns carry those
  names, in order.\<close>

definition index_has_cols :: "IndexMeta \<Rightarrow> string list \<Rightarrow> bool" where
  "index_has_cols ix ns \<longleftrightarrow> col_num ix = length ns \<and> (\<forall>i < length ns. cm_name (im_cols ix ! i) = ns ! i)"

definition is_index :: "TabMeta \<Rightarrow> string list \<Rightarrow> bool" where
  "is_index tab ns \<longleftrightarrow> list_ex (\<lambda>ix. index_has_cols ix ns) (tm_indexes tab)"

text \<open>\<open>find_index_pos\<close>: the position of the first such index, or -1.\<close>

definition find_index_pos :: "TabMeta \<Rightarrow> string list \<Rightarrow> int" where
  "find_index_pos tab ns =
     (let k = length (takeWhile (\<lambda>ix. \<not> index_has_cols ix ns) (tm_indexes tab))
      in if k < length (tm_indexes tab) then int k else -1)"

text \<open>\<open>get_index_meta\<close>: the first such index, or \<open>IndexNotFoundError\<close>.\<close>

definition get_index_meta :: "TabMeta \<Rightarrow> string list \<Rightarrow> meta_error + IndexMeta" where
  "get_index_meta tab ns =
     (case find (\<lambda>ix. index_has_cols ix ns) (tm_indexes tab) of
        None \<Rightarrow> Inl (IndexNotFoundError (tm_name tab) ns)
      | Some ix \<Rightarrow> Inr ix)"

text \<open>\<open>get_col\<close>: through \<open>cols_hash.at\<close>.\<close>

definition get_col :: "TabMeta \<Rightarrow> string \<Rightarrow> meta_error + ColMeta" where
  "get_col tab n =
     (case cols_hash tab n of
        None \<Rightarrow> Inl (MetaOutOfRange n)
      | Some i \<Rightarrow> Inr (tm_cols tab ! i))"

section \<open>Index selection\<close>

text \<open>The maps of \<open>is_leftmost_match\<close>: a column name to the position of the last
  equality condition on it, and to the last range condition (neither equality nor
  inequality).\<close>

definition eq_map :: "Condition list \<Rightarrow> string \<rightharpoonup> nat" where
  "eq_map cs = fold (\<lambda>(i, c) m. if cond_op c = OP_EQ then m(tc_col_name (lhs_col c) \<mapsto> i) else m) (enumerate 0 cs) Map.empty"

definition lg_map :: "Condition list \<Rightarrow> string \<rightharpoonup> nat" where
  "lg_map cs = fold (\<lambda>(i, c) m. if cond_op c \<noteq> OP_EQ \<and> cond_op c \<noteq> OP_NE then m(tc_col_name (lhs_col c) \<mapsto> i) else m)
                 (enumerate 0 cs) Map.empty"

text \<open>The inner loop over an index's columns: equalities extend the prefix, a range
  condition ends it (counted), anything else ends it.\<close>

fun match_len :: "(string \<rightharpoonup> nat) \<Rightarrow> (string \<rightharpoonup> nat) \<Rightarrow> ColMeta list \<Rightarrow> nat" where
  "match_len eqm lgm [] = 0"
| "match_len eqm lgm (c # cs) =
     (if eqm (cm_name c) \<noteq> None then Suc (match_len eqm lgm cs)
      else if lgm (cm_name c) \<noteq> None then 1 else 0)"

text \<open>The outer loop: the first index with the longest prefix beyond the start value.\<close>

definition best_index :: "(IndexMeta \<Rightarrow> nat option) \<Rightarrow> nat \<Rightarrow> IndexMeta list \<Rightarrow> nat \<times> nat option" where
  "best_index len start ixs =
     fold (\<lambda>(j, ix) (ml, mi). case len ix of None \<Rightarrow> (ml, mi) | Some t \<Rightarrow> if ml < t then (t, Some j) else (ml, mi))
       (enumerate 0 ixs) (start, None)"

text \<open>The loop that fills \<open>permutation\<close> and \<open>vis_mask\<close>, from index column position
  \<open>k\<close> on.\<close>

fun perm_walk :: "(string \<rightharpoonup> nat) \<Rightarrow> (string \<rightharpoonup> nat) \<Rightarrow> nat \<Rightarrow> ColMeta list \<Rightarrow> (nat \<rightharpoonup> nat) \<Rightarrow> int list \<Rightarrow>
    (nat \<rightharpoonup> nat) \<times> int list" where
  "perm_walk eqm lgm k [] perm vis = (perm, vis)"
| "perm_walk eqm lgm k (c # cs) perm vis =
     (case eqm (cm_name c) of
        Some i \<Rightarrow> perm_walk eqm lgm (Suc k) cs (perm(k \<mapsto> i)) (vis[i := 1])
      | None \<Rightarrow> (case lgm (cm_name c) of
                   Some i \<Rightarrow> (perm(k \<mapsto> i), vis[i := 1])
                 | None \<Rightarrow> (perm, vis)))"

text \<open>\<open>is_leftmost_match\<close>: the result, and the new \<open>vis_mask\<close>, \<open>permutation\<close> and
  \<open>index_col_names\<close>.\<close>

definition is_leftmost_match :: "TabMeta \<Rightarrow> Condition list \<Rightarrow> int list \<Rightarrow> (nat \<rightharpoonup> nat) \<Rightarrow>
    bool \<times> int list \<times> (nat \<rightharpoonup> nat) \<times> string list" where
  "is_leftmost_match tab cs vis perm =
     (if cs = [] then (False, vis, perm, [])
      else
        let eqm = eq_map cs; lgm = lg_map cs;
            (ml, mi) = best_index (\<lambda>ix. Some (match_len eqm lgm (im_cols ix))) 0 (tm_indexes tab)
        in case mi of
             None \<Rightarrow> (False, vis, perm, [])
           | Some j \<Rightarrow>
               (let ix = tm_indexes tab ! j;
                    (perm', vis') = perm_walk eqm lgm 0 (im_cols ix) perm vis
                in (True, vis', perm', map cm_name (im_cols ix))))"

text \<open>\<open>is_leftmost_range_match\<close>: the same over indexes whose first column is an
  \<open>int\<close>, the first column matching anything, and the prefix counted from the
  second column.\<close>

definition is_leftmost_range_match :: "TabMeta \<Rightarrow> Condition list \<Rightarrow> int list \<Rightarrow> (nat \<rightharpoonup> nat) \<Rightarrow>
    bool \<times> int list \<times> (nat \<rightharpoonup> nat) \<times> string list" where
  "is_leftmost_range_match tab cs vis perm =
     (if cs = [] then (False, vis, perm, [])
      else
        let eqm = eq_map cs; lgm = lg_map cs;
            (ml, mi) = best_index (\<lambda>ix. if cm_type (hd (im_cols ix)) \<noteq> TYPE_INT then None
                                         else Some (Suc (match_len eqm lgm (tl (im_cols ix))))) 1 (tm_indexes tab)
        in case mi of
             None \<Rightarrow> (False, vis, perm, [])
           | Some j \<Rightarrow>
               (let ix = tm_indexes tab ! j;
                    (perm', vis') = perm_walk eqm lgm 0 (tl (im_cols ix)) perm vis
                in (True, vis', perm', map cm_name (im_cols ix))))"

section \<open>The database\<close>

record DbMeta =
  db_name :: string
  tabs :: "string \<rightharpoonup> TabMeta"

definition is_table :: "DbMeta \<Rightarrow> string \<Rightarrow> bool" where
  "is_table db t \<longleftrightarrow> tabs db t \<noteq> None"

definition SetTabMeta :: "string \<Rightarrow> TabMeta \<Rightarrow> DbMeta \<Rightarrow> DbMeta" where
  "SetTabMeta t meta db = db\<lparr>tabs := (tabs db)(t \<mapsto> meta)\<rparr>"

definition get_table :: "DbMeta \<Rightarrow> string \<Rightarrow> meta_error + TabMeta" where
  "get_table db t = (case tabs db t of None \<Rightarrow> Inl (TableNotFoundError t) | Some tab \<Rightarrow> Inr tab)"

end
