(* ===== verification/System_Manager.thy ===== *)
theory System_Manager
  imports Catalog Transaction_Manager
begin

text \<open>
  The system manager of \<open>system/sm_manager.cpp\<close>: the DDL operations on the catalog
  (\<open>create_table\<close>, \<open>drop_table\<close>, \<open>create_index\<close>, \<open>drop_index\<close>), the datetime check,
  and the insertion path of a row (\<open>do_pre_insert\<close>, \<open>insert_into_index\<close>,
  \<open>insert_rec\<close>). An index handle is modelled by what the B+ tree stores, a map from
  key bytes to rids (the page-level tree is not modelled; \<open>IxIndexHandle::insert_entry\<close>
  rejects a key already present and \<open>binary_search\<close> finds a present key). The
  buffer-pool bookkeeping of \<open>drop_table\<close> and \<open>drop_index\<close> (unpin and delete every
  page of the file) and the file-system calls are not modelled; \<open>flush_meta\<close> is the
  copy of the catalog it writes.
\<close>

section \<open>State\<close>

text \<open>The abstract index: key bytes to rid.\<close>

type_synonym ix_handle = "8 word list \<rightharpoonup> Rid"

text \<open>\<open>SmManager\<close>: the catalog \<open>db_\<close>, the open heap files \<open>fhs_\<close>, the open indexes
  \<open>ihs_\<close> (named by \<open>get_index_name\<close> from the table and the index columns, here the
  pair of them) and the catalog last written to \<open>db.meta\<close>.\<close>

record sm_manager =
  db :: DbMeta
  fhs :: tables
  ihs :: "string \<times> string list \<rightharpoonup> ix_handle"
  meta_file :: DbMeta

datatype sm_error =
    TableExistsError string
  | SmMetaError meta_error
  | SmValueError value_error
  | IndexInsertDuplicatedError
  | SmHeapError rm_error
  | SmAssertFailure

text \<open>\<open>struct ColDef\<close>.\<close>

record ColDef =
  cd_name :: string
  cd_type :: ColType
  cd_len :: nat

section \<open>The abstract index\<close>

definition ix_insert_entry :: "8 word list \<Rightarrow> Rid \<Rightarrow> ix_handle \<Rightarrow> sm_error + ix_handle" where
  "ix_insert_entry k rid ih = (if ih k \<noteq> None then Inl IndexInsertDuplicatedError else Inr (ih(k \<mapsto> rid)))"

definition ix_binary_search :: "8 word list \<Rightarrow> ix_handle \<Rightarrow> bool" where
  "ix_binary_search k ih \<longleftrightarrow> ih k \<noteq> None"

text \<open>\<open>IxManager::get_index_name\<close> (\<open>index/ix_manager.h\<close>, not among the sources): the
  index is named by its table and its columns.\<close>

definition index_name :: "string \<Rightarrow> ColMeta list \<Rightarrow> string \<times> string list" where
  "index_name t cols = (t, map cm_name cols)"

section \<open>Catalog operations\<close>

definition flush_meta :: "sm_manager \<Rightarrow> sm_manager" where
  "flush_meta sm = sm\<lparr>meta_file := db sm\<rparr>"

text \<open>The column layout of \<open>create_table\<close>: each column at the running offset, which
  advances by its length.\<close>

fun col_layout :: "string \<Rightarrow> nat \<Rightarrow> ColDef list \<Rightarrow> ColMeta list" where
  "col_layout t off [] = []"
| "col_layout t off (d # ds) =
     \<lparr>cm_tab_name = t, cm_name = cd_name d, cm_type = cd_type d, cm_len = cd_len d, cm_offset = off, cm_index = False\<rparr>
     # col_layout t (off + cd_len d) ds"

text \<open>\<open>create_table\<close>: a table of that name must not exist; the record size is the
  sum of the column lengths; \<open>mk_file\<close> is the empty heap file \<open>RmManager\<close> creates and
  opens for a name and a record size (\<open>record/rm_manager.h\<close>, not among the sources).\<close>

definition create_table :: "(string \<Rightarrow> nat \<Rightarrow> rm_file) \<Rightarrow> string \<Rightarrow> ColDef list \<Rightarrow> sm_manager \<Rightarrow> sm_error + sm_manager" where
  "create_table mk_file t defs sm =
     (if is_table (db sm) t then Inl (TableExistsError t)
      else
        let cols = col_layout t 0 defs;
            tab = \<lparr>tm_name = t, tm_cols = cols, tm_indexes = [],
                   cols_hash = map_of (rev (zip (map cd_name defs) [0..<length defs]))\<rparr>;
            record_size = sum_list (map cd_len defs);
            sm1 = sm\<lparr>db := SetTabMeta t tab (db sm),
                     fhs := (if fhs sm t = None then (fhs sm)(t \<mapsto> mk_file t record_size) else fhs sm)\<rparr>
        in Inr (flush_meta sm1))"

text \<open>\<open>drop_table\<close>: the table must exist; its metadata and its file handle go. The
  index handles of the table stay in \<open>ihs_\<close>.\<close>

definition drop_table :: "string \<Rightarrow> sm_manager \<Rightarrow> sm_error + sm_manager" where
  "drop_table t sm =
     (if \<not> is_table (db sm) t then Inl (SmMetaError (TableNotFoundError t))
      else
        let sm1 = flush_meta (sm\<lparr>db := (db sm)\<lparr>tabs := (tabs (db sm))(t := None)\<rparr>\<rparr>)
        in Inr (sm1\<lparr>fhs := (fhs sm1)(t := None)\<rparr>))"

text \<open>The key of a record for an index: its columns' bytes, concatenated.\<close>

definition index_key :: "ColMeta list \<Rightarrow> rm_record \<Rightarrow> 8 word list" where
  "index_key cols r = concat (map (\<lambda>c. take (cm_len c) (drop (cm_offset c) r)) cols)"

text \<open>Looking up the index columns through \<open>tab.get_col\<close>.\<close>

fun get_cols :: "TabMeta \<Rightarrow> string list \<Rightarrow> sm_error + ColMeta list" where
  "get_cols tab [] = Inr []"
| "get_cols tab (n # ns) =
     (case get_col tab n of
        Inl e \<Rightarrow> Inl (SmMetaError e)
      | Inr c \<Rightarrow> (case get_cols tab ns of Inl e \<Rightarrow> Inl e | Inr cs \<Rightarrow> Inr (c # cs)))"

text \<open>The scan loop of \<open>create_index\<close>: every record of the file, in scan order, read
  through \<open>get_now_record\<close> and inserted under its key.\<close>

fun build_index :: "ColMeta list \<Rightarrow> rm_file \<Rightarrow> rm_context option \<Rightarrow> Rid list \<Rightarrow> ix_handle \<Rightarrow>
    (sm_error + ix_handle) \<times> rm_context option" where
  "build_index cols f ctx [] ih = (Inr ih, ctx)"
| "build_index cols f ctx (rid # rids) ih =
     (case get_record rid ctx f of
        (Inl e, ctx') \<Rightarrow> (Inl (SmHeapError e), ctx')
      | (Inr r, ctx') \<Rightarrow>
          (case ix_insert_entry (index_key cols r) rid ih of
             Inl e \<Rightarrow> (Inl e, ctx')
           | Inr ih' \<Rightarrow> build_index cols f ctx' rids ih'))"

text \<open>\<open>create_index\<close>: an index already on these columns is a no-op; otherwise the
  index is built from the table's records, registered in \<open>ihs_\<close> (which must not hold
  it yet) and appended to the table's indexes.\<close>

definition create_index :: "string \<Rightarrow> string list \<Rightarrow> rm_context option \<Rightarrow> sm_manager \<Rightarrow>
    (sm_error + sm_manager) \<times> rm_context option" where
  "create_index t ns ctx sm =
     (case get_table (db sm) t of
        Inl e \<Rightarrow> (Inl (SmMetaError e), ctx)
      | Inr tab \<Rightarrow>
          if is_index tab ns then (Inr sm, ctx)
          else case get_cols tab ns of
            Inl e \<Rightarrow> (Inl e, ctx)
          | Inr cols \<Rightarrow>
              (let ix = \<lparr>im_tab_name = tm_name tab, col_tot_len = sum_list (map cm_len cols),
                         col_num = length ns, im_cols = cols\<rparr>
               in case fhs sm t of
                 None \<Rightarrow> (Inl (SmMetaError (MetaOutOfRange t)), ctx)
               | Some f \<Rightarrow>
                   (case rm_scan_all f of
                      Inl e \<Rightarrow> (Inl (SmHeapError e), ctx)
                    | Inr rids \<Rightarrow>
                        (case build_index cols f ctx rids Map.empty of
                           (Inl e, ctx') \<Rightarrow> (Inl e, ctx')
                         | (Inr ih, ctx') \<Rightarrow>
                             if ihs sm (index_name t cols) \<noteq> None then (Inl SmAssertFailure, ctx')
                             else (Inr (flush_meta (sm\<lparr>ihs := (ihs sm)(index_name t cols \<mapsto> ih),
                                     db := SetTabMeta t (tab\<lparr>tm_indexes := tm_indexes tab @ [ix]\<rparr>) (db sm)\<rparr>)), ctx')))))"

text \<open>\<open>drop_index\<close> (by column names): \<open>db_.tabs_[tab_name]\<close> inserts an empty table
  when there is none; the columns are looked up; an index not on these columns is a
  no-op; otherwise its handle and its metadata go.\<close>

definition empty_tab :: TabMeta where
  "empty_tab = \<lparr>tm_name = [], tm_cols = [], tm_indexes = [], cols_hash = Map.empty\<rparr>"

definition drop_index :: "string \<Rightarrow> string list \<Rightarrow> sm_manager \<Rightarrow> sm_error + sm_manager" where
  "drop_index t ns sm =
     (let tab = (case tabs (db sm) t of None \<Rightarrow> empty_tab | Some tab \<Rightarrow> tab);
          sm0 = sm\<lparr>db := SetTabMeta t tab (db sm)\<rparr>
      in case get_cols tab ns of
        Inl e \<Rightarrow> Inl e
      | Inr cols \<Rightarrow>
          if \<not> is_index tab ns then Inr sm0
          else
            let k = nat (find_index_pos tab ns)
            in Inr (flush_meta (sm0\<lparr>ihs := (ihs sm0)(index_name t cols := None),
                     db := SetTabMeta t (tab\<lparr>tm_indexes := take k (tm_indexes tab) @ drop (Suc k) (tm_indexes tab)\<rparr>) (db sm0)\<rparr>)))"

text \<open>The overload of \<open>drop_index\<close> by column metadata: the names of the columns,
  then the same steps (used by recovery's index rebuild).\<close>

definition drop_index_cols :: "string \<Rightarrow> ColMeta list \<Rightarrow> sm_manager \<Rightarrow> sm_error + sm_manager" where
  "drop_index_cols t cols sm = drop_index t (map cm_name cols) sm"

section \<open>Datetimes\<close>

text \<open>The characters \<open>'0'\<close> to \<open>'9'\<close>, and \<open>std::stoi\<close> of a string of digits.\<close>

definition is_digit :: "char \<Rightarrow> bool" where
  "is_digit c \<longleftrightarrow> 48 \<le> (of_char c :: nat) \<and> (of_char c :: nat) \<le> 57"

definition digits_val :: "string \<Rightarrow> nat" where
  "digits_val s = foldl (\<lambda>a c. 10 * a + (of_char c - 48)) 0 s"

text \<open>The characters at positions \<open>i\<close> to \<open>i + n - 1\<close>.\<close>

definition field :: "string \<Rightarrow> nat \<Rightarrow> nat \<Rightarrow> string" where
  "field s i n = take n (drop i s)"

text \<open>\<open>check_datetime_\<close>: 19 characters before the first NUL, between the two bounds
  as strings, digits and separators in the shape \<open>YYYY-MM-DD hh:mm:ss\<close>, month 1 to
  12, day 1 to 31 and not February 30, hour to 23, minute and second to 59. Each
  early \<open>return false\<close> is one conjunct.\<close>

definition check_datetime :: "string \<Rightarrow> bool" where
  "check_datetime s \<longleftrightarrow>
     c_strlen s = 19 \<and>
     \<not> str_less s ''1000-01-01 00:00:00'' \<and> \<not> str_less ''9999-12-31 23:59:59'' s \<and>
     list_all is_digit (field s 0 4) \<and> s ! 4 = CHR ''-'' \<and> list_all is_digit (field s 5 2) \<and> s ! 7 = CHR ''-'' \<and>
     list_all is_digit (field s 8 2) \<and> s ! 10 = CHR '' '' \<and> list_all is_digit (field s 11 2) \<and> s ! 13 = CHR '':'' \<and>
     list_all is_digit (field s 14 2) \<and> s ! 16 = CHR '':'' \<and> list_all is_digit (field s 17 2) \<and>
     1 \<le> digits_val (field s 5 2) \<and> digits_val (field s 5 2) \<le> 12 \<and>
     1 \<le> digits_val (field s 8 2) \<and> digits_val (field s 8 2) \<le> 31 \<and>
     \<not> (digits_val (field s 5 2) = 2 \<and> digits_val (field s 8 2) = 30) \<and>
     digits_val (field s 11 2) \<le> 23 \<and> digits_val (field s 14 2) \<le> 59 \<and> digits_val (field s 17 2) \<le> 59"

section \<open>Inserting a row\<close>

text \<open>The value of column \<open>col\<close> coerced to the column's type as \<open>do_pre_insert\<close>
  does: a string into a datetime column becomes a datetime, which must be valid; an
  \<open>int\<close> into a \<open>bigint\<close> column is widened; any other mismatch is
  \<open>IncompatibleTypeError\<close>. Then \<open>init_raw(col.len)\<close>.\<close>

definition coerce_value :: "ColMeta \<Rightarrow> Value \<Rightarrow> sm_error + Value" where
  "coerce_value col v =
     (let v1 =
        (if cm_type col = val_type v then Inr v
         else if cm_type col = TYPE_DATETIME then
           (let v' = v\<lparr>val_type := TYPE_DATETIME, datetime_val := str_val v\<rparr>
            in if \<not> check_datetime (datetime_val v') then Inl (SmValueError (InvalidValueError (datetime_val v')))
               else Inr v')
         else if cm_type col = TYPE_BIGINT \<and> val_type v = TYPE_INT then Inr (set_bigint (int_val v) v)
         else Inl (SmValueError (IncompatibleTypeError (case coltype2str (cm_type col) of None \<Rightarrow> [] | Some n \<Rightarrow> n)
                                                      (case coltype2str (val_type v) of None \<Rightarrow> [] | Some n \<Rightarrow> n))))
      in case v1 of
           Inl e \<Rightarrow> Inl e
         | Inr v2 \<Rightarrow> (case init_raw (cm_len col) v2 of Inl e \<Rightarrow> Inl (SmValueError e) | Inr v3 \<Rightarrow> Inr v3))"

text \<open>\<open>memcpy(rec.data + col.offset, val.raw->data, col.len)\<close>.\<close>

definition put_bytes :: "nat \<Rightarrow> 8 word list \<Rightarrow> rm_record \<Rightarrow> rm_record" where
  "put_bytes off bs r = take off r @ bs @ drop (off + length bs) r"

text \<open>The first loop of \<open>do_pre_insert\<close>: each value into its column of the record.\<close>

fun fill_values :: "ColMeta list \<Rightarrow> Value list \<Rightarrow> rm_record \<Rightarrow> sm_error + rm_record" where
  "fill_values cols [] r = Inr r"
| "fill_values cols (v # vs) r =
     (case coerce_value (hd cols) v of
        Inl e \<Rightarrow> Inl e
      | Inr v' \<Rightarrow> fill_values (tl cols) vs (put_bytes (cm_offset (hd cols)) (take (cm_len (hd cols)) (the (raw v'))) r))"

text \<open>The uniqueness check of \<open>do_pre_insert\<close>: the key of the new record in every
  index of the table must be absent.\<close>

definition check_unique :: "TabMeta \<Rightarrow> rm_record \<Rightarrow> sm_manager \<Rightarrow> sm_error + unit" where
  "check_unique tab r sm =
     (if list_ex (\<lambda>ix. case ihs sm (index_name (tm_name tab) (im_cols ix)) of
                          None \<Rightarrow> False | Some ih \<Rightarrow> ix_binary_search (index_key (im_cols ix) r) ih) (tm_indexes tab)
      then Inl IndexInsertDuplicatedError else Inr ())"

text \<open>\<open>do_pre_insert\<close>: fill the record, take the table IX lock through the context,
  and check the indexes. An index handle missing from \<open>ihs_\<close> (\<open>ihs_.at\<close>) is
  \<open>MetaOutOfRange\<close>.\<close>

definition do_pre_insert :: "rm_file \<Rightarrow> Value list \<Rightarrow> TabMeta \<Rightarrow> rm_record \<Rightarrow> rm_context option \<Rightarrow> sm_manager \<Rightarrow>
    (sm_error + rm_record) \<times> rm_context option" where
  "do_pre_insert f vs tab r ctx sm =
     (case fill_values (tm_cols tab) vs r of
        Inl e \<Rightarrow> (Inl e, ctx)
      | Inr r' \<Rightarrow>
          (case opt_lock (\<lambda>t. lock_IX_on_table t (fd f)) ctx of
             Inl e \<Rightarrow> (Inl (SmHeapError e), ctx)
           | Inr ctx' \<Rightarrow>
               if list_ex (\<lambda>ix. ihs sm (index_name (tm_name tab) (im_cols ix)) = None) (tm_indexes tab)
               then (Inl (SmMetaError (MetaOutOfRange (tm_name tab))), ctx')
               else (case check_unique tab r' sm of Inl e \<Rightarrow> (Inl e, ctx') | Inr _ \<Rightarrow> (Inr r', ctx'))))"

text \<open>\<open>insert_into_index\<close>: the key of the record under its rid, in every index.\<close>

fun insert_into_indexes :: "string \<Rightarrow> IndexMeta list \<Rightarrow> rm_record \<Rightarrow> Rid \<Rightarrow> sm_manager \<Rightarrow> sm_error + sm_manager" where
  "insert_into_indexes t [] r rid sm = Inr sm"
| "insert_into_indexes t (ix # ixs) r rid sm =
     (case ihs sm (index_name t (im_cols ix)) of
        None \<Rightarrow> Inl (SmMetaError (MetaOutOfRange t))
      | Some ih \<Rightarrow>
          (case ix_insert_entry (index_key (im_cols ix) r) rid ih of
             Inl e \<Rightarrow> Inl e
           | Inr ih' \<Rightarrow> insert_into_indexes t ixs r rid (sm\<lparr>ihs := (ihs sm)(index_name t (im_cols ix) \<mapsto> ih')\<rparr>)))"

definition insert_into_index :: "TabMeta \<Rightarrow> rm_record \<Rightarrow> Rid \<Rightarrow> sm_manager \<Rightarrow> sm_error + sm_manager" where
  "insert_into_index tab r rid sm = insert_into_indexes (tm_name tab) (tm_indexes tab) r rid sm"

text \<open>\<open>insert_rec\<close>: a zeroed record of the file's record size, filled and checked,
  inserted into the heap file (stored back under the table's name) and into the
  indexes.\<close>

definition insert_rec :: "string \<Rightarrow> Value list \<Rightarrow> TabMeta \<Rightarrow> rm_context option \<Rightarrow> sm_manager \<Rightarrow>
    (sm_error + (Rid \<times> sm_manager)) \<times> rm_context option" where
  "insert_rec t vs tab ctx sm =
     (case fhs sm t of
        None \<Rightarrow> (Inl (SmMetaError (MetaOutOfRange t)), ctx)
      | Some f \<Rightarrow>
          (case do_pre_insert f vs tab (replicate (record_size f) 0) ctx sm of
             (Inl e, ctx1) \<Rightarrow> (Inl e, ctx1)
           | (Inr r, ctx1) \<Rightarrow>
               (case insert_record r ctx1 f of
                  (Inl e, f', ctx2) \<Rightarrow> (Inl (SmHeapError e), ctx2)
                | (Inr rid, f', ctx2) \<Rightarrow>
                    (case insert_into_index tab r rid (sm\<lparr>fhs := (fhs sm)(t \<mapsto> f')\<rparr>) of
                       Inl e \<Rightarrow> (Inl e, ctx2)
                     | Inr sm' \<Rightarrow> (Inr (rid, sm'), ctx2)))))"

section \<open>A catalog for the witnesses\<close>

text \<open>Table \<open>t\<close> with one \<open>int\<close> column \<open>c\<close> and an index on it, over \<open>demo_file\<close>.\<close>

definition demo_defs :: "ColDef list" where
  "demo_defs = [\<lparr>cd_name = ''c'', cd_type = TYPE_INT, cd_len = 2\<rparr>]"

definition demo_sm :: sm_manager where
  "demo_sm =
     (let tab = \<lparr>tm_name = ''t'', tm_cols = col_layout ''t'' 0 demo_defs,
                 tm_indexes = [\<lparr>im_tab_name = ''t'', col_tot_len = 2, col_num = 1, im_cols = col_layout ''t'' 0 demo_defs\<rparr>],
                 cols_hash = [''c'' \<mapsto> 0]\<rparr>;
          d = \<lparr>db_name = ''d'', tabs = [''t'' \<mapsto> tab]\<rparr>
      in \<lparr>db = d, fhs = [''t'' \<mapsto> demo_file], ihs = [(''t'', [''c'']) \<mapsto> Map.empty], meta_file = d\<rparr>)"

section \<open>Layout, index and catalog lemmas\<close>

lemma col_layout_length [simp]: "length (col_layout t off ds) = length ds"
  by (induction ds arbitrary: off) simp_all

lemma col_layout_nth:
  "i < length ds \<Longrightarrow> cm_offset (col_layout t off ds ! i) = off + sum_list (map cd_len (take i ds)) \<and>
     cm_len (col_layout t off ds ! i) = cd_len (ds ! i) \<and> cm_name (col_layout t off ds ! i) = cd_name (ds ! i) \<and>
     cm_type (col_layout t off ds ! i) = cd_type (ds ! i) \<and> cm_tab_name (col_layout t off ds ! i) = t"
proof (induction ds arbitrary: off i)
  case Nil
  then show ?case by simp
next
  case (Cons d ds)
  then show ?case by (cases i) auto
qed

lemma sum_take_le: "i < length xs \<Longrightarrow> sum_list (take i xs) + xs ! i \<le> sum_list (xs :: nat list)"
proof -
  assume i: "i < length xs"
  have "sum_list xs = sum_list (take i xs) + sum_list (drop i xs)"
    by (simp flip: sum_list_append)
  moreover have "xs ! i \<le> sum_list (drop i xs)"
    using i by (simp add: Cons_nth_drop_Suc [symmetric])
  ultimately show ?thesis by simp
qed

lemma col_layout_within:
  "i < length ds \<Longrightarrow> cm_offset (col_layout t 0 ds ! i) + cm_len (col_layout t 0 ds ! i) \<le> sum_list (map cd_len ds)"
  using col_layout_nth [of i ds t 0] sum_take_le [of i "map cd_len ds"] by (simp add: take_map)

lemma col_layout_disjoint:
  "i < j \<Longrightarrow> j < length ds \<Longrightarrow> cm_offset (col_layout t 0 ds ! i) + cm_len (col_layout t 0 ds ! i) \<le> cm_offset (col_layout t 0 ds ! j)"
proof -
  assume ij: "i < j" "j < length ds"
  have "take j (map cd_len ds) = take i (map cd_len ds) @ take (j - i) (drop i (map cd_len ds))"
    using ij by (metis le_add_diff_inverse less_imp_le_nat take_add)
  moreover have "take (j - i) (drop i (map cd_len ds)) = cd_len (ds ! i) # take (j - i - 1) (drop (Suc i) (map cd_len ds))"
    using ij by (cases "j - i") (auto simp: Cons_nth_drop_Suc [symmetric])
  ultimately show ?thesis using col_layout_nth [of i ds t 0] col_layout_nth [of j ds t 0] ij by (simp add: take_map)
qed

text \<open>\<open>check_datetime_\<close> rejects February 30 but accepts February 31 (and April 31,
  and February 29 of any year).\<close>

theorem check_datetime_feb31: "check_datetime ''2023-02-31 10:00:00''"
  by (simp add: check_datetime_def c_strlen_def field_def is_digit_def digits_val_def char_less_def)

lemma check_datetime_feb30: "\<not> check_datetime ''2023-02-30 10:00:00''"
  by (simp add: check_datetime_def c_strlen_def field_def is_digit_def digits_val_def char_less_def)

lemma build_index_spec:
  assumes "heap_inv f" "\<forall>rid \<in> set rids. heap_abs f rid \<noteq> None"
    and "distinct (map (\<lambda>rid. index_key cols (the (heap_abs f rid))) rids)"
    and "\<forall>rid \<in> set rids. ih (index_key cols (the (heap_abs f rid))) = None"
  shows "build_index cols f None rids ih =
           (Inr (ih ++ map_of (zip (map (\<lambda>rid. index_key cols (the (heap_abs f rid))) rids) rids)), None)"
  using assms(2-4)
proof (induction rids arbitrary: ih)
  case Nil
  then show ?case by simp
next
  case (Cons rid rids)
  let ?k = "\<lambda>rid. index_key cols (the (heap_abs f rid))"
  obtain v where v: "heap_abs f rid = Some v" using Cons.prems(1) by auto
  have get: "get_record rid None f = (Inr v, None)" by (rule get_record_abs [OF assms(1) v])
  have ins: "ix_insert_entry (index_key cols v) rid ih = Inr (ih(?k rid \<mapsto> rid))"
    using Cons.prems(3) v by (simp add: ix_insert_entry_def)
  have "build_index cols f None rids (ih(?k rid \<mapsto> rid)) =
          (Inr (ih(?k rid \<mapsto> rid) ++ map_of (zip (map ?k rids) rids)), None)"
  proof (rule Cons.IH)
    show "\<forall>r \<in> set rids. heap_abs f r \<noteq> None" "distinct (map ?k rids)" using Cons.prems(1,2) by auto
    show "\<forall>r \<in> set rids. (ih(?k rid \<mapsto> rid)) (?k r) = None"
    proof
      fix r assume r: "r \<in> set rids"
      have nin: "?k rid \<notin> ?k ` set rids" using Cons.prems(2) by simp
      then have "?k r \<noteq> ?k rid" using r by (metis image_eqI)
      then show "(ih(?k rid \<mapsto> rid)) (?k r) = None" using Cons.prems(3) r by simp
    qed
  qed
  moreover have "?k rid \<notin> set (map ?k rids)"
    using Cons.prems(2) by simp
  then have "?k rid \<notin> dom (map_of (zip (map ?k rids) rids))"
    by (simp add: dom_map_of_zip)
  then have "ih(?k rid \<mapsto> rid) ++ map_of (zip (map ?k rids) rids) = ih ++ map_of (zip (map ?k (rid # rids)) (rid # rids))"
    by (simp add: map_add_upd_left)
  moreover have "build_index cols f None (rid # rids) ih = build_index cols f None rids (ih(?k rid \<mapsto> rid))"
    using get ins v by simp
  ultimately show ?case by metis
qed

lemma build_index_dup:
  assumes "heap_inv f" "heap_abs f r1 = Some v1" "heap_abs f r2 = Some v2"
    and "index_key cols v1 = index_key cols v2" "r1 \<noteq> r2"
    and "ih (index_key cols v1) = Some r1"
  shows "fst (build_index cols f None (r2 # rids) ih) = Inl IndexInsertDuplicatedError"
  using assms get_record_abs [OF assms(1,3)] by (simp add: ix_insert_entry_def)

lemma drop_table_ihs: "drop_table t sm = Inr sm' \<Longrightarrow> ihs sm' = ihs sm"
  by (auto simp: drop_table_def flush_meta_def Let_def split: if_splits)

lemma create_table_ihs: "create_table mk t defs sm = Inr sm' \<Longrightarrow> ihs sm' = ihs sm"
  by (auto simp: create_table_def flush_meta_def Let_def split: if_splits)

lemma get_cols_names:
  assumes "get_cols tab ns = Inr cols"
    and "\<forall>n i. cols_hash tab n = Some i \<longrightarrow> i < length (tm_cols tab) \<and> cm_name (tm_cols tab ! i) = n"
  shows "map cm_name cols = ns"
  using assms
proof (induction ns arbitrary: cols)
  case Nil
  then show ?case by simp
next
  case (Cons n ns)
  then show ?case by (auto simp: get_col_def split: option.splits sum.splits)
qed

lemma map_of_rev_zip_index:
  "map_of (rev (zip (map g ds) [0..<length ds])) n = Some i \<Longrightarrow> i < length ds \<and> g (ds ! i) = n"
proof -
  assume "map_of (rev (zip (map g ds) [0..<length ds])) n = Some i"
  then have "(n, i) \<in> set (zip (map g ds) [0..<length ds])" by (auto dest: map_of_SomeD)
  then show ?thesis by (auto simp: set_zip)
qed

lemma created_hash_ok:
  "create_table mk t defs sm = Inr sm' \<Longrightarrow> tabs (db sm') t = Some tab \<Longrightarrow>
   \<forall>n i. cols_hash tab n = Some i \<longrightarrow> i < length (tm_cols tab) \<and> cm_name (tm_cols tab ! i) = n"
  by (auto simp: create_table_def flush_meta_def SetTabMeta_def Let_def col_layout_nth
      dest!: map_of_rev_zip_index split: if_splits)

lemma create_table_tab:
  "create_table mk t defs sm = Inr sm' \<Longrightarrow>
   tabs (db sm') t = Some \<lparr>tm_name = t, tm_cols = col_layout t 0 defs, tm_indexes = [],
                           cols_hash = map_of (rev (zip (map cd_name defs) [0..<length defs]))\<rparr>"
  by (auto simp: create_table_def flush_meta_def SetTabMeta_def Let_def split: if_splits)

text \<open>\<open>drop_table\<close> leaves the table's index handles in \<open>ihs_\<close>: after dropping a
  table with an index and creating it again, creating the same index fails.\<close>

theorem recreate_index_after_drop_fails:
  assumes drop: "drop_table t sm = Inr sm1" and create: "create_table mk t defs sm1 = Inr sm2"
    and old: "ihs sm (t, ns) \<noteq> None"
  shows "\<exists>e. fst (create_index t ns ctx sm2) = Inl e"
proof -
  let ?tab = "\<lparr>tm_name = t, tm_cols = col_layout t 0 defs, tm_indexes = [],
               cols_hash = map_of (rev (zip (map cd_name defs) [0..<length defs]))\<rparr>"
  have tab: "tabs (db sm2) t = Some ?tab" by (rule create_table_tab [OF create])
  have ihs2: "ihs sm2 = ihs sm" using drop_table_ihs [OF drop] create_table_ihs [OF create] by simp
  have names: "map cm_name cols = ns" if "get_cols ?tab ns = Inr cols" for cols
    using get_cols_names [OF that created_hash_ok [OF create tab]] .
  show ?thesis
    using tab ihs2 old names
    by (auto simp: create_index_def get_table_def is_index_def index_name_def Let_def
        split: sum.splits option.splits prod.splits)
qed

theorem recreate_index_after_drop_fails_witness:
  "\<exists>sm1 sm2 e. drop_table ''t'' demo_sm = Inr sm1 \<and> create_table (\<lambda>n rs. demo_file) ''t'' demo_defs sm1 = Inr sm2 \<and>
     fst (create_index ''t'' [''c''] None sm2) = Inl e"
proof -
  obtain sm1 where d: "drop_table ''t'' demo_sm = Inr sm1"
    by (simp add: drop_table_def demo_sm_def is_table_def Let_def)
  obtain sm2 where c: "create_table (\<lambda>n rs. demo_file) ''t'' demo_defs sm1 = Inr sm2"
    using d by (auto simp: create_table_def drop_table_def demo_sm_def is_table_def flush_meta_def Let_def)
  have "ihs demo_sm (''t'', [''c'']) \<noteq> None" by (simp add: demo_sm_def Let_def)
  then show ?thesis using d c recreate_index_after_drop_fails [OF d c] by blast
qed

end
