(* ===== verification/Executors.thy ===== *)
theory Executors
  imports System_Manager "HOL-Library.Multiset"
begin

text \<open>
  The query executors of \<open>execution/\<close>: the column lookup and condition evaluation of
  \<open>AbstractExecutor\<close> (\<open>executor_abstract.h\<close>), and the sequential scan, projection, sort
  and aggregation executors. An executor is the record of its virtual methods over a
  state type of its own (\<open>beginTuple\<close>, \<open>nextTuple\<close>, \<open>is_end\<close>, \<open>Next\<close>, \<open>cols\<close>); a
  parent holds its child's state inside its own, as the C++ parent holds \<open>prev_\<close>.
  The loop \<open>for (prev_->beginTuple(); !prev_->is_end(); prev_->nextTuple())\<close> is
  \<open>drain_loop\<close>, with fuel, since a child in general need not end.
\<close>

section \<open>Errors and the executor interface\<close>

text \<open>The exceptions the executors throw, the failed assertions, and the errors of the
  layers they call.\<close>

datatype exec_error =
    ColumnNotFoundError string
  | InvalidValueError string
  | InvalidValueCountError
  | IncompatibleTypeError ColType ColType
  | ExecInternalError string
  | ExecAssertFailure
  | ExecValueError value_error
  | ExecRmError rm_error
  | ExecMetaError meta_error
  | ExecSmError sm_error

record 's executor =
  ex_cols :: "ColMeta list"
  ex_get_col_offset :: "TabCol \<Rightarrow> ColMeta"
  ex_begin :: "'s \<Rightarrow> (exec_error + 's) option"
  ex_next :: "'s \<Rightarrow> exec_error + 's"
  ex_is_end :: "'s \<Rightarrow> bool"
  ex_Next :: "'s \<Rightarrow> exec_error + rm_record \<times> 's"

text \<open>\<open>beginTuple\<close> is \<open>None\<close> when it does not end (a sort or an aggregation
  drains its child there).\<close>

text \<open>The loop \<open>for (prev_->beginTuple(); !prev_->is_end(); prev_->nextTuple())\<close> with
  body \<open>g\<close> on \<open>prev_->Next()\<close>: after \<open>beginTuple\<close>, \<open>drain_fold\<close>; \<open>None\<close> when the
  fuel runs out.\<close>

fun drain_fold :: "nat \<Rightarrow> 's executor \<Rightarrow> ('a \<Rightarrow> rm_record \<Rightarrow> exec_error + 'a) \<Rightarrow> 'a \<Rightarrow> 's \<Rightarrow>
    (exec_error + 'a \<times> 's) option" where
  "drain_fold 0 ex g a s = None"
| "drain_fold (Suc n) ex g a s =
     (if ex_is_end ex s then Some (Inr (a, s))
      else case ex_Next ex s of
             Inl e \<Rightarrow> Some (Inl e)
           | Inr (r, s1) \<Rightarrow>
               (case g a r of
                  Inl e \<Rightarrow> Some (Inl e)
                | Inr a1 \<Rightarrow>
                    (case ex_next ex s1 of
                       Inl e \<Rightarrow> Some (Inl e)
                     | Inr s2 \<Rightarrow> drain_fold n ex g a1 s2)))"

definition drain_loop :: "nat \<Rightarrow> 's executor \<Rightarrow> ('a \<Rightarrow> rm_record \<Rightarrow> exec_error + 'a) \<Rightarrow> 'a \<Rightarrow> 's \<Rightarrow>
    (exec_error + 'a \<times> 's) option" where
  "drain_loop n ex g a s =
     (case ex_begin ex s of
        None \<Rightarrow> None
      | Some (Inl e) \<Rightarrow> Some (Inl e)
      | Some (Inr s1) \<Rightarrow> drain_fold n ex g a s1)"

text \<open>The body that keeps every tuple (\<open>sorted_tuples.emplace_back(prev_->Next())\<close>),
  and the records a loop returns, without the final state.\<close>

definition push_rec :: "rm_record list \<Rightarrow> rm_record \<Rightarrow> exec_error + rm_record list" where
  "push_rec rs r = Inr (rs @ [r])"

definition records :: "(exec_error + 'a \<times> 's) option \<Rightarrow> (exec_error + 'a) option" where
  "records r = map_option (map_sum id fst) r"

section \<open>Columns of an executor\<close>

definition get_hash_key :: "string \<Rightarrow> string \<Rightarrow> string" where
  "get_hash_key t c = t @ ''$'' @ c"

text \<open>\<open>init_hash_cols\<close>: each column's key to its position; a later column of the same
  key overwrites an earlier one.\<close>

definition init_hash_cols :: "ColMeta list \<Rightarrow> string \<rightharpoonup> nat" where
  "init_hash_cols cols =
     fold (\<lambda>(i, c) h. h(get_hash_key (cm_tab_name c) (cm_name c) \<mapsto> i)) (enumerate 0 cols) Map.empty"

text \<open>\<open>get_col(target)\<close> through \<open>hash_cols_\<close>: the position, and the column.\<close>

definition col_pos :: "ColMeta list \<Rightarrow> TabCol \<Rightarrow> exec_error + nat" where
  "col_pos cols t =
     (case init_hash_cols cols (get_hash_key (tc_tab_name t) (tc_col_name t)) of
        None \<Rightarrow> Inl (ColumnNotFoundError (tc_tab_name t @ ''.'' @ tc_col_name t))
      | Some i \<Rightarrow> Inr i)"

definition exec_get_col :: "ColMeta list \<Rightarrow> TabCol \<Rightarrow> exec_error + ColMeta" where
  "exec_get_col cols t = map_sum id (\<lambda>i. cols ! i) (col_pos cols t)"

text \<open>\<open>get_col_offset(target)\<close> of the projection, scan and aggregation executors: the
  first column of that table and name, or a default \<open>ColMeta\<close>.\<close>

definition default_col :: ColMeta where
  "default_col = \<lparr>cm_tab_name = [], cm_name = [], cm_type = TYPE_INT, cm_len = 0, cm_offset = 0, cm_index = False\<rparr>"

definition get_col_offset :: "ColMeta list \<Rightarrow> TabCol \<Rightarrow> ColMeta" where
  "get_col_offset cols t =
     (case find (\<lambda>c. cm_tab_name c = tc_tab_name t \<and> cm_name c = tc_col_name t) cols of
        None \<Rightarrow> default_col
      | Some c \<Rightarrow> c)"

section \<open>Conditions\<close>

fun op_holds :: "CompOp \<Rightarrow> int \<Rightarrow> bool" where
  "op_holds OP_EQ c = (c = 0)"
| "op_holds OP_NE c = (c \<noteq> 0)"
| "op_holds OP_LT c = (c < 0)"
| "op_holds OP_GT c = (c > 0)"
| "op_holds OP_LE c = (c \<le> 0)"
| "op_holds OP_GE c = (c \<ge> 0)"

text \<open>\<open>eval_cond(prev_, cond, rec)\<close>: the left column's bytes against the value's raw
  bytes or the right column's bytes, of the same type (asserted); a datetime constant
  must be a valid datetime. A value without raw bytes is the null pointer the code
  dereferences.\<close>

definition eval_cond :: "ColMeta list \<Rightarrow> Condition \<Rightarrow> rm_record \<Rightarrow> exec_error + bool" where
  "eval_cond cols cond r =
     (case exec_get_col cols (lhs_col cond) of
        Inl e \<Rightarrow> Inl e
      | Inr lc \<Rightarrow>
          (case (if is_rhs_val cond
                 then (case raw (rhs_val cond) of
                         None \<Rightarrow> Inl ExecAssertFailure
                       | Some bs \<Rightarrow> Inr (val_type (rhs_val cond), bs))
                 else map_sum id (\<lambda>rc. (cm_type rc, drop (cm_offset rc) r)) (exec_get_col cols (rhs_col cond))) of
             Inl e \<Rightarrow> Inl e
           | Inr (rty, rhs) \<Rightarrow>
               if rty \<noteq> cm_type lc then Inl ExecAssertFailure
               else if is_rhs_val cond \<and> rty = TYPE_DATETIME \<and> \<not> check_datetime (datetime_val (rhs_val cond))
               then Inl (InvalidValueError (datetime_val (rhs_val cond)))
               else (case ix_compare (drop (cm_offset lc) r) rhs rty (cm_len lc) of
                       Inl e \<Rightarrow> Inl (ExecValueError e)
                     | Inr c \<Rightarrow> Inr (op_holds (cond_op cond) c))))"

fun eval_conds :: "ColMeta list \<Rightarrow> Condition list \<Rightarrow> rm_record \<Rightarrow> exec_error + bool" where
  "eval_conds cols [] r = Inr True"
| "eval_conds cols (c # cs) r =
     (case eval_cond cols c r of
        Inl e \<Rightarrow> Inl e
      | Inr b \<Rightarrow> if b then eval_conds cols cs r else Inr False)"

section \<open>Sequential scan\<close>

text \<open>The scan's state: the rids the \<open>RmScan\<close> has still to visit (its current rid
  first; the list \<open>rm_scan_all\<close> enumerates), \<open>record_buffer\<close> (\<open>None\<close> once moved
  out), and the context.\<close>

record seq_scan =
  ss_rest :: "Rid list"
  ss_buffer :: "rm_record option"
  ss_ctx :: rm_context

definition check_runtime_conds :: "string \<Rightarrow> Condition list \<Rightarrow> exec_error + unit" where
  "check_runtime_conds t cs =
     (if list_all (\<lambda>c. tc_tab_name (lhs_col c) = t \<and> (is_rhs_val c \<or> tc_tab_name (rhs_col c) = t)) cs
      then Inr () else Inl ExecAssertFailure)"

text \<open>\<open>get_now_record(false)\<close>: no lock; the slot must hold a record (asserted).\<close>

definition now_record :: "rm_file \<Rightarrow> Rid \<Rightarrow> exec_error + rm_record" where
  "now_record f rid = (case heap_abs f rid of None \<Rightarrow> Inl ExecAssertFailure | Some r \<Rightarrow> Inr r)"

text \<open>The loop of \<open>beginTuple\<close> and \<open>nextTuple\<close>: read each record into the buffer
  and stop at the first that satisfies the conditions.\<close>

fun seek :: "rm_file \<Rightarrow> ColMeta list \<Rightarrow> Condition list \<Rightarrow> rm_record option \<Rightarrow> Rid list \<Rightarrow>
    exec_error + Rid list \<times> rm_record option" where
  "seek f cols cs buf [] = Inr ([], buf)"
| "seek f cols cs buf (rid # rids) =
     (case now_record f rid of
        Inl e \<Rightarrow> Inl e
      | Inr r \<Rightarrow>
          (case eval_conds cols cs r of
             Inl e \<Rightarrow> Inl e
           | Inr b \<Rightarrow> if b then Inr (rid # rids, Some r) else seek f cols cs (Some r) rids))"

definition seq_begin :: "string \<Rightarrow> rm_file \<Rightarrow> ColMeta list \<Rightarrow> Condition list \<Rightarrow> seq_scan \<Rightarrow> exec_error + seq_scan" where
  "seq_begin t f cols cs s =
     (case check_runtime_conds t cs of
        Inl e \<Rightarrow> Inl e
      | Inr _ \<Rightarrow>
          (case ctx_lock (\<lambda>tx. lock_shared_on_table tx (fd f)) (ss_ctx s) of
             Inl e \<Rightarrow> Inl (ExecRmError e)
           | Inr c \<Rightarrow>
               (case rm_scan_all f of
                  Inl e \<Rightarrow> Inl (ExecRmError e)
                | Inr rids \<Rightarrow>
                    (case seek f cols cs (ss_buffer s) rids of
                       Inl e \<Rightarrow> Inl e
                     | Inr (rest, buf) \<Rightarrow> Inr \<lparr>ss_rest = rest, ss_buffer = buf, ss_ctx = c\<rparr>))))"

definition seq_next :: "string \<Rightarrow> rm_file \<Rightarrow> ColMeta list \<Rightarrow> Condition list \<Rightarrow> seq_scan \<Rightarrow> exec_error + seq_scan" where
  "seq_next t f cols cs s =
     (case check_runtime_conds t cs of
        Inl e \<Rightarrow> Inl e
      | Inr _ \<Rightarrow>
          if ss_rest s = [] then Inl ExecAssertFailure
          else (case seek f cols cs (ss_buffer s) (tl (ss_rest s)) of
                  Inl e \<Rightarrow> Inl e
                | Inr (rest, buf) \<Rightarrow> Inr (s\<lparr>ss_rest := rest, ss_buffer := buf\<rparr>)))"

definition seq_Next :: "seq_scan \<Rightarrow> exec_error + rm_record \<times> seq_scan" where
  "seq_Next s =
     (if ss_rest s = [] then Inl ExecAssertFailure
      else case ss_buffer s of
             None \<Rightarrow> Inl ExecAssertFailure
           | Some r \<Rightarrow> Inr (r, s\<lparr>ss_buffer := None\<rparr>))"

definition seq_ops :: "string \<Rightarrow> rm_file \<Rightarrow> ColMeta list \<Rightarrow> Condition list \<Rightarrow> seq_scan executor" where
  "seq_ops t f cols cs =
     \<lparr>ex_cols = cols, ex_get_col_offset = get_col_offset cols, ex_begin = (\<lambda>s. Some (seq_begin t f cols cs s)),
      ex_next = seq_next t f cols cs,
      ex_is_end = (\<lambda>s. ss_rest s = []), ex_Next = seq_Next\<rparr>"

text \<open>The constructor: the table's metadata (\<open>TableNotFoundError\<close>), its file handle
  (absent: the null handle, dereferenced at once), and \<open>cols_.back()\<close> of a non-empty
  column list.\<close>

definition seq_scan_exec :: "sm_manager \<Rightarrow> string \<Rightarrow> Condition list \<Rightarrow> exec_error + seq_scan executor" where
  "seq_scan_exec sm t cs =
     (case get_table (db sm) t of
        Inl e \<Rightarrow> Inl (ExecMetaError e)
      | Inr tab \<Rightarrow>
          (case fhs sm t of
             None \<Rightarrow> Inl ExecAssertFailure
           | Some f \<Rightarrow> if tm_cols tab = [] then Inl ExecAssertFailure else Inr (seq_ops t f (tm_cols tab) cs)))"

definition seq_init :: "rm_context \<Rightarrow> seq_scan" where
  "seq_init c = \<lparr>ss_rest = [], ss_buffer = None, ss_ctx = c\<rparr>"

section \<open>Projection\<close>

text \<open>The constructor's loop: each selected column through \<open>prev_->get_col\<close>, its
  position into \<open>sel_idxs_\<close>, and a copy of it at the next offset into \<open>cols_\<close>.\<close>

fun proj_layout :: "ColMeta list \<Rightarrow> nat \<Rightarrow> TabCol list \<Rightarrow> exec_error + nat list \<times> ColMeta list" where
  "proj_layout pcols off [] = Inr ([], [])"
| "proj_layout pcols off (t # ts) =
     (case col_pos pcols t of
        Inl e \<Rightarrow> Inl e
      | Inr i \<Rightarrow>
          (let c = (pcols ! i)\<lparr>cm_offset := off\<rparr>
           in map_sum id (\<lambda>(is, cs). (i # is, c # cs)) (proj_layout pcols (off + cm_len c) ts)))"

text \<open>\<open>project\<close>: a record of \<open>len_\<close> bytes, each projected column copied from its
  source column (of the same length, asserted).\<close>

fun project_cols :: "ColMeta list \<Rightarrow> rm_record \<Rightarrow> (nat \<times> ColMeta) list \<Rightarrow> rm_record \<Rightarrow> exec_error + rm_record" where
  "project_cols pcols src [] dst = Inr dst"
| "project_cols pcols src ((i, c) # ps) dst =
     (if cm_len (pcols ! i) \<noteq> cm_len c then Inl ExecAssertFailure
      else project_cols pcols src ps (put_bytes (cm_offset c) (take (cm_len c) (drop (cm_offset (pcols ! i)) src)) dst))"

definition project :: "ColMeta list \<Rightarrow> nat list \<Rightarrow> ColMeta list \<Rightarrow> nat \<Rightarrow> rm_record \<Rightarrow> exec_error + rm_record" where
  "project pcols idxs cols len src = project_cols pcols src (zip idxs cols) (replicate len 0)"

text \<open>The projection has its child's state; \<open>nextTuple\<close> and \<open>Next\<close> assert that the
  child has not ended.\<close>

definition proj_ops :: "'s executor \<Rightarrow> nat list \<Rightarrow> ColMeta list \<Rightarrow> nat \<Rightarrow> 's executor" where
  "proj_ops prev idxs cols len =
     \<lparr>ex_cols = cols, ex_get_col_offset = get_col_offset cols, ex_begin = ex_begin prev,
      ex_next = (\<lambda>s. if ex_is_end prev s then Inl ExecAssertFailure else ex_next prev s),
      ex_is_end = ex_is_end prev,
      ex_Next = (\<lambda>s. if ex_is_end prev s then Inl ExecAssertFailure
                     else case ex_Next prev s of
                            Inl e \<Rightarrow> Inl e
                          | Inr (r, s1) \<Rightarrow> map_sum id (\<lambda>r'. (r', s1)) (project (ex_cols prev) idxs cols len r))\<rparr>"

definition projection_exec :: "'s executor \<Rightarrow> TabCol list \<Rightarrow> exec_error + 's executor" where
  "projection_exec prev sel =
     (case proj_layout (ex_cols prev) 0 sel of
        Inl e \<Rightarrow> Inl e
      | Inr (idxs, cols) \<Rightarrow> Inr (proj_ops prev idxs cols (sum_list (map cm_len cols))))"

section \<open>Sort\<close>

text \<open>The comparator of \<open>std::stable_sort\<close>: the first order column on which the two
  records differ decides, reversed when it is descending; equal records are not less.\<close>

fun sort_less :: "ColMeta list \<Rightarrow> bool list \<Rightarrow> rm_record \<Rightarrow> rm_record \<Rightarrow> exec_error + bool" where
  "sort_less [] descs r1 r2 = Inr False"
| "sort_less (c # cs) descs r1 r2 =
     (case ix_compare (drop (cm_offset c) r1) (drop (cm_offset c) r2) (cm_type c) (cm_len c) of
        Inl e \<Rightarrow> Inl (ExecValueError e)
      | Inr x \<Rightarrow> if x < 0 then Inr (\<not> hd descs) else if 0 < x then Inr (hd descs) else sort_less cs (tl descs) r1 r2)"

text \<open>\<open>std::stable_sort\<close> as insertion sort: each element goes before the first
  element of the sorted prefix it is less than, after the ones it equals. A moved-out
  tuple is a null pointer the comparator dereferences.\<close>

fun ins_by :: "('a \<Rightarrow> 'a \<Rightarrow> exec_error + bool) \<Rightarrow> 'a \<Rightarrow> 'a list \<Rightarrow> exec_error + 'a list" where
  "ins_by lt x [] = Inr [x]"
| "ins_by lt x (y # ys) =
     (case lt x y of
        Inl e \<Rightarrow> Inl e
      | Inr b \<Rightarrow> if b then Inr (x # y # ys) else map_sum id (Cons y) (ins_by lt x ys))"

fun stable_sort_by :: "('a \<Rightarrow> 'a \<Rightarrow> exec_error + bool) \<Rightarrow> 'a list \<Rightarrow> 'a list \<Rightarrow> exec_error + 'a list" where
  "stable_sort_by lt acc [] = Inr acc"
| "stable_sort_by lt acc (x # xs) = (case ins_by lt x acc of Inl e \<Rightarrow> Inl e | Inr acc' \<Rightarrow> stable_sort_by lt acc' xs)"

fun opt_less :: "('a \<Rightarrow> 'a \<Rightarrow> exec_error + bool) \<Rightarrow> 'a option \<Rightarrow> 'a option \<Rightarrow> exec_error + bool" where
  "opt_less lt (Some a) (Some b) = lt a b"
| "opt_less lt _ _ = Inl ExecAssertFailure"

text \<open>The state: the child's, \<open>sorted_tuples\<close> (\<open>None\<close> once moved out) and \<open>now_ptr\<close>.\<close>

record 's sort_state =
  so_prev :: 's
  so_tuples :: "rm_record option list"
  so_ptr :: nat

text \<open>\<open>beginTuple\<close>: every tuple of the child appended to \<open>sorted_tuples\<close>, the pointer
  reset, then the stable sort.\<close>

definition sort_begin :: "nat \<Rightarrow> 's executor \<Rightarrow> ColMeta list \<Rightarrow> bool list \<Rightarrow> 's sort_state \<Rightarrow>
    (exec_error + 's sort_state) option" where
  "sort_begin fuel prev cols descs st =
     (case drain_loop fuel prev push_rec [] (so_prev st) of
        None \<Rightarrow> None
      | Some (Inl e) \<Rightarrow> Some (Inl e)
      | Some (Inr (rs, ps)) \<Rightarrow>
          Some (map_sum id (\<lambda>ts. \<lparr>so_prev = ps, so_tuples = ts, so_ptr = 0\<rparr>)
                  (stable_sort_by (opt_less (sort_less cols descs)) [] (so_tuples st @ map Some rs))))"

text \<open>\<open>is_end\<close>: past the tuples or at \<open>limit_cnt_\<close>, the \<open>size_t\<close> of the \<open>int\<close> limit
  (so \<open>-1\<close> is no limit). \<open>Next\<close>: \<open>sorted_tuples.at(now_ptr)\<close>, moved out.\<close>

definition sort_Next :: "'s sort_state \<Rightarrow> exec_error + rm_record \<times> 's sort_state" where
  "sort_Next st =
     (if length (so_tuples st) \<le> so_ptr st then Inl ExecAssertFailure
      else case so_tuples st ! so_ptr st of
             None \<Rightarrow> Inl ExecAssertFailure
           | Some r \<Rightarrow> Inr (r, st\<lparr>so_tuples := (so_tuples st)[so_ptr st := None]\<rparr>))"

definition sort_ops :: "nat \<Rightarrow> 's executor \<Rightarrow> ColMeta list \<Rightarrow> bool list \<Rightarrow> nat \<Rightarrow> 's sort_state executor" where
  "sort_ops fuel prev cols descs lim =
     \<lparr>ex_cols = ex_cols prev, ex_get_col_offset = (\<lambda>t. default_col),
      ex_begin = sort_begin fuel prev cols descs,
      ex_next = (\<lambda>st. Inr (st\<lparr>so_ptr := Suc (so_ptr st)\<rparr>)),
      ex_is_end = (\<lambda>st. length (so_tuples st) \<le> so_ptr st \<or> lim \<le> so_ptr st),
      ex_Next = sort_Next\<rparr>"

definition sort_exec :: "nat \<Rightarrow> 's executor \<Rightarrow> TabCol list \<Rightarrow> bool list \<Rightarrow> int \<Rightarrow> 's sort_state executor" where
  "sort_exec fuel prev order descs limit =
     sort_ops fuel prev (map (ex_get_col_offset prev) order) descs (unat (word_of_int limit :: 64 word))"

definition sort_init :: "'s \<Rightarrow> 's sort_state" where
  "sort_init s = \<lparr>so_prev = s, so_tuples = [], so_ptr = 0\<rparr>"

section \<open>Aggregation\<close>

text \<open>\<open>get_col_meta(prev_cols, target)\<close>: the target's names, and the type, length and
  offset of the first column of the child that matches it (left as the defaults when
  none does).\<close>

definition get_col_meta :: "ColMeta list \<Rightarrow> TabCol \<Rightarrow> ColMeta" where
  "get_col_meta pcols t =
     (let ret = default_col\<lparr>cm_tab_name := tc_tab_name t, cm_name := tc_col_name t\<rparr>
      in case find (\<lambda>c. tc_tab_name t = cm_tab_name c \<and> tc_col_name t = cm_name c) pcols of
           None \<Rightarrow> ret
         | Some c \<Rightarrow> ret\<lparr>cm_offset := cm_offset c, cm_len := cm_len c, cm_type := cm_type c\<rparr>)"

text \<open>The constructor's first loop, over the pairs of \<open>agre_types[i]\<close> and
  \<open>target_cols[i]\<close>: the input column \<open>cols_[i]\<close> (a default one for \<open>COUNT(*)\<close>) and the
  output column \<open>ans_[i]\<close> at the next offset, an \<open>int\<close> for the counts.\<close>

fun agg_layout :: "ColMeta list \<Rightarrow> nat \<Rightarrow> (AgreType \<times> TabCol) list \<Rightarrow> ColMeta list \<times> ColMeta list" where
  "agg_layout pcols off [] = ([], [])"
| "agg_layout pcols off ((at, t) # xs) =
     (let c = (if at \<noteq> AGRE_TYPE_COUNT_ALL then get_col_meta pcols t else default_col);
          a = (if at = AGRE_TYPE_COUNT \<or> at = AGRE_TYPE_COUNT_ALL
               then default_col\<lparr>cm_type := TYPE_INT, cm_len := 4\<rparr>
               else default_col\<lparr>cm_type := cm_type c, cm_len := cm_len c\<rparr>)\<lparr>cm_offset := off\<rparr>;
          (cs, ans) = agg_layout pcols (off + cm_len a) xs
      in (c # cs, a # ans))"

text \<open>The second loop: \<open>agre_values_[i].init_agre_raw\<close> on a fresh \<open>AgreValue\<close>
  (whose members other than the null string pointer are indeterminate, zero here).\<close>

definition agre_fresh :: AgreValue where
  "agre_fresh = \<lparr>agre_type = AGRE_TYPE_COUNT, agre_col_type = TYPE_UNUSE, agre_num = 0, agre_str = None, str_len = 0\<rparr>"

fun agg_init :: "AgreType list \<Rightarrow> ColMeta list \<Rightarrow> exec_error + AgreValue list" where
  "agg_init [] cs = Inr []"
| "agg_init (at # ats) cs =
     (case (if at \<noteq> AGRE_TYPE_COUNT_ALL then init_agre_raw (cm_type (hd cs)) at (cm_len (hd cs)) agre_fresh
            else init_agre_raw TYPE_INT at 4 agre_fresh) of
        Inl e \<Rightarrow> Inl (ExecValueError e)
      | Inr v \<Rightarrow> map_sum id (Cons v) (agg_init ats (tl cs)))"

text \<open>The state: the child's, \<open>agre_values_\<close>, \<open>all_count\<close> (an \<open>int\<close>, wrapping) and
  \<open>end_flag\<close>.\<close>

record 's agg_state =
  ag_prev :: 's
  ag_values :: "AgreValue list"
  all_count :: "32 word"
  end_flag :: bool

text \<open>The body of \<open>beginTuple\<close>'s loop on one tuple: count it, and add each column
  of a \<open>MAX\<close>, \<open>MIN\<close> or \<open>SUM\<close> aggregate.\<close>

fun add_values :: "(32 word \<Rightarrow> 32 word \<Rightarrow> 32 word) \<Rightarrow> ColMeta list \<Rightarrow> rm_record \<Rightarrow> AgreValue list \<Rightarrow>
    exec_error + AgreValue list" where
  "add_values fadd [] r vs = Inr vs"
| "add_values fadd (c # cs) r vs =
     (let v = hd vs
      in if agre_type v \<noteq> AGRE_TYPE_COUNT_ALL \<and> agre_type v \<noteq> AGRE_TYPE_COUNT then
           (case add_value fadd (drop (cm_offset c) r) (cm_len c) v of
              Inl e \<Rightarrow> Inl (ExecValueError e)
            | Inr v' \<Rightarrow> map_sum id (Cons v') (add_values fadd cs r (tl vs)))
         else map_sum id (Cons v) (add_values fadd cs r (tl vs)))"

definition agg_step :: "(32 word \<Rightarrow> 32 word \<Rightarrow> 32 word) \<Rightarrow> ColMeta list \<Rightarrow> AgreValue list \<times> 32 word \<Rightarrow> rm_record \<Rightarrow>
    exec_error + AgreValue list \<times> 32 word" where
  "agg_step fadd cols acc r =
     (case acc of (vs, n) \<Rightarrow> map_sum id (\<lambda>vs'. (vs', n + 1)) (add_values fadd cols r vs))"

definition agg_begin :: "nat \<Rightarrow> (32 word \<Rightarrow> 32 word \<Rightarrow> 32 word) \<Rightarrow> 's executor \<Rightarrow> ColMeta list \<Rightarrow>
    's agg_state \<Rightarrow> (exec_error + 's agg_state) option" where
  "agg_begin fuel fadd prev cols st =
     (case drain_loop fuel prev (agg_step fadd cols) (ag_values st, all_count st) (ag_prev st) of
        None \<Rightarrow> None
      | Some (Inl e) \<Rightarrow> Some (Inl e)
      | Some (Inr ((vs, n), ps)) \<Rightarrow> Some (Inr (st\<lparr>ag_prev := ps, ag_values := vs, all_count := n\<rparr>)))"

text \<open>\<open>Next\<close>: the output record, each aggregate's bytes at its offset: the count for
  the two counts, the result of \<open>get_value\<close> for the others (a null result is
  dereferenced).\<close>

fun agg_output :: "32 word \<Rightarrow> AgreValue list \<Rightarrow> ColMeta list \<Rightarrow> exec_error + rm_record" where
  "agg_output n vs [] = Inr []"
| "agg_output n vs (a # ans) =
     (let v = hd vs
      in (case (if agre_type v = AGRE_TYPE_COUNT_ALL \<or> agre_type v = AGRE_TYPE_COUNT
                then Inr (take (cm_len a) (le_enc 4 (uint n)))
                else (case get_value v of
                        Inl e \<Rightarrow> Inl (ExecValueError e)
                      | Inr None \<Rightarrow> Inl ExecAssertFailure
                      | Inr (Some bs) \<Rightarrow> Inr (take (cm_len a) bs))) of
            Inl e \<Rightarrow> Inl e
          | Inr bs \<Rightarrow> map_sum id (\<lambda>rest. bs @ rest) (agg_output n (tl vs) ans)))"

definition agg_ops :: "nat \<Rightarrow> (32 word \<Rightarrow> 32 word \<Rightarrow> 32 word) \<Rightarrow> 's executor \<Rightarrow> ColMeta list \<Rightarrow> ColMeta list \<Rightarrow>
    's agg_state executor" where
  "agg_ops fuel fadd prev cols ans =
     \<lparr>ex_cols = ans, ex_get_col_offset = get_col_offset ans,
      ex_begin = agg_begin fuel fadd prev cols,
      ex_next = (\<lambda>st. Inr (st\<lparr>end_flag := True\<rparr>)),
      ex_is_end = end_flag,
      ex_Next = (\<lambda>st. map_sum id (\<lambda>r. (r, st)) (agg_output (all_count st) (ag_values st) ans))\<rparr>"

definition aggregation_exec :: "nat \<Rightarrow> (32 word \<Rightarrow> 32 word \<Rightarrow> 32 word) \<Rightarrow> 's executor \<Rightarrow> (AgreType \<times> TabCol) list \<Rightarrow> 's \<Rightarrow>
    exec_error + 's agg_state executor \<times> 's agg_state" where
  "aggregation_exec fuel fadd prev aggs s =
     (let (cols, ans) = agg_layout (ex_cols prev) 0 aggs
      in map_sum id (\<lambda>vs. (agg_ops fuel fadd prev cols ans, \<lparr>ag_prev = s, ag_values = vs, all_count = 0, end_flag = False\<rparr>))
           (agg_init (map fst aggs) cols))"

section \<open>Reference semantics\<close>

text \<open>What a filtered scan returns: the record of each rid, in order, kept when it
  satisfies the conditions; the first error stops it.\<close>

fun scan_filter :: "rm_file \<Rightarrow> ColMeta list \<Rightarrow> Condition list \<Rightarrow> Rid list \<Rightarrow> exec_error + rm_record list" where
  "scan_filter f cols cs [] = Inr []"
| "scan_filter f cols cs (rid # rids) =
     (case now_record f rid of
        Inl e \<Rightarrow> Inl e
      | Inr r \<Rightarrow>
          (case eval_conds cols cs r of
             Inl e \<Rightarrow> Inl e
           | Inr b \<Rightarrow> if b then map_sum id (Cons r) (scan_filter f cols cs rids) else scan_filter f cols cs rids))"

text \<open>What one aggregate of an \<open>int\<close> column returns over the column's values.\<close>

definition agg_result :: "AgreType \<Rightarrow> int list \<Rightarrow> int" where
  "agg_result at vs =
     (case at of
        AGRE_TYPE_SUM \<Rightarrow> sum_list vs
      | AGRE_TYPE_MAX \<Rightarrow> fold max vs INT_MIN
      | AGRE_TYPE_MIN \<Rightarrow> fold min vs INT_MAX
      | _ \<Rightarrow> int (length vs))"

section \<open>Data for the witnesses\<close>

text \<open>The condition \<open>t.c > v\<close> over \<open>demo_sm\<close>, with \<open>v\<close> the raw bytes \<open>[2, 2]\<close>.\<close>

definition demo_cond :: Condition where
  "demo_cond =
     \<lparr>lhs_col = \<lparr>tc_tab_name = ''t'', tc_col_name = ''c''\<rparr>, cond_op = OP_GT, is_rhs_val = True,
      rhs_col = \<lparr>tc_tab_name = [], tc_col_name = []\<rparr>,
      rhs_val = \<lparr>val_type = TYPE_INT, val_union = 0, str_val = [], datetime_val = [], raw = Some [2, 2]\<rparr>\<rparr>"

text \<open>Table \<open>u\<close> with one 4-byte \<open>int\<close> column \<open>a\<close> holding -5, 7, 7 and 9.\<close>

definition demo_icols :: "ColMeta list" where
  "demo_icols = [\<lparr>cm_tab_name = ''u'', cm_name = ''a'', cm_type = TYPE_INT, cm_len = 4, cm_offset = 0, cm_index = False\<rparr>]"

definition demo_ifile :: rm_file where
  "demo_ifile =
     \<lparr>record_size = 4, num_records_per_page = 2, num_pages = 3, fd = 8, file_name = ''u'',
      pages = [1 \<mapsto> \<lparr>num_records = 2, bitmap = [True, True], slots = [le_enc 4 (-5), le_enc 4 7]\<rparr>,
               2 \<mapsto> \<lparr>num_records = 2, bitmap = [True, True], slots = [le_enc 4 7, le_enc 4 9]\<rparr>],
      free_pageno_set = []\<rparr>"

section \<open>Scan, sort and aggregation lemmas\<close>

lemma seq_drain_fold:
  assumes ok: "check_runtime_conds t cs = Inr ()"
  shows "length rids < n \<Longrightarrow>
    (case seek f cols cs buf rids of
       Inl e \<Rightarrow> Some (Inl e)
     | Inr (rest, buf') \<Rightarrow> records (drain_fold n (seq_ops t f cols cs) push_rec acc \<lparr>ss_rest = rest, ss_buffer = buf', ss_ctx = c\<rparr>))
    = Some (map_sum id ((@) acc) (scan_filter f cols cs rids))"
proof (induction rids arbitrary: n buf acc)
  case Nil
  then obtain m where "n = Suc m" by (cases n) auto
  then show ?case by (simp add: records_def seq_ops_def)
next
  case (Cons rid rids)
  then obtain m where n: "n = Suc m" and m: "length rids < m" by (cases n) auto
  show ?case
  proof (cases "now_record f rid")
    case (Inr r)
    show ?thesis
    proof (cases "eval_conds cols cs r")
      case (Inr b)
      show ?thesis
      proof (cases b)
        case True
        have IH: "(case seek f cols cs None rids of
                    Inl e \<Rightarrow> Some (Inl e)
                  | Inr (rest, buf') \<Rightarrow> records (drain_fold m (seq_ops t f cols cs) push_rec (acc @ [r]) \<lparr>ss_rest = rest, ss_buffer = buf', ss_ctx = c\<rparr>))
                  = Some (map_sum id ((@) (acc @ [r])) (scan_filter f cols cs rids))"
          using Cons.IH m by blast
        show ?thesis
          using IH \<open>now_record f rid = Inr r\<close> \<open>eval_conds cols cs r = Inr b\<close> True
          by (cases "seek f cols cs None rids"; cases "scan_filter f cols cs rids")
             (auto simp: n seq_ops_def seq_Next_def seq_next_def ok push_rec_def records_def split: option.splits sum.splits)
      next
        case False
        have "(case seek f cols cs (Some r) rids of
                    Inl e \<Rightarrow> Some (Inl e)
                  | Inr (rest, buf') \<Rightarrow> records (drain_fold n (seq_ops t f cols cs) push_rec acc \<lparr>ss_rest = rest, ss_buffer = buf', ss_ctx = c\<rparr>))
                  = Some (map_sum id ((@) acc) (scan_filter f cols cs rids))"
          using Cons.IH[where n=n and buf="Some r" and acc=acc] Cons.prems by (simp add: id_def)
        then show ?thesis
          using \<open>now_record f rid = Inr r\<close> \<open>eval_conds cols cs r = Inr b\<close> False by (simp add: id_def)
      qed
    qed (use Inr in simp)
  qed simp
qed

lemma scan_filter_ok:
  "list_all (\<lambda>rid. case heap_abs f rid of None \<Rightarrow> False | Some r \<Rightarrow> \<not> isl (eval_conds cols cs r)) rids \<Longrightarrow>
   scan_filter f cols cs rids = Inr (filter (\<lambda>r. eval_conds cols cs r = Inr True) (map (\<lambda>rid. the (heap_abs f rid)) rids))"
  by (induction rids) (auto simp: now_record_def split: option.splits sum.splits)

lemma seq_scan_exec_Inr:
  "seq_scan_exec sm t cs = Inr ex \<Longrightarrow> fhs sm t = Some f \<Longrightarrow> ex = seq_ops t f (ex_cols ex) cs"
  by (auto simp: seq_scan_exec_def seq_ops_def split: sum.splits if_splits)

text \<open>C13. The sequential scan executor, driven by the loop \<open>beginTuple\<close>, \<open>is_end\<close>,
  \<open>Next\<close>, \<open>nextTuple\<close>, returns exactly the records of the table's file that satisfy
  all its conditions, in the order \<open>RmScan\<close> visits their rids, and ends with one step of
  fuel per rid of the file.\<close>

theorem seq_scan_returns_filter:
  assumes ex: "seq_scan_exec sm t cs = Inr ex" and f: "fhs sm t = Some f"
    and ok: "check_runtime_conds t cs = Inr ()"
    and lk: "ctx_lock (\<lambda>tx. lock_shared_on_table tx (fd f)) c = Inr c'"
    and rids: "rm_scan_all f = Inr rids"
    and recs: "list_all (\<lambda>rid. case heap_abs f rid of None \<Rightarrow> False | Some r \<Rightarrow> \<not> isl (eval_conds (ex_cols ex) cs r)) rids"
  shows "records (drain_loop (Suc (length rids)) ex push_rec [] (seq_init c)) =
           Some (Inr (filter (\<lambda>r. eval_conds (ex_cols ex) cs r = Inr True) (map (\<lambda>rid. the (heap_abs f rid)) rids)))"
proof -
  have e: "ex = seq_ops t f (ex_cols ex) cs" using seq_scan_exec_Inr[OF ex f] .
  have "records (drain_loop (Suc (length rids)) (seq_ops t f (ex_cols ex) cs) push_rec [] (seq_init c)) =
          Some (map_sum id ((@) []) (scan_filter f (ex_cols ex) cs rids))"
    using seq_drain_fold[OF ok, where rids=rids and n="Suc (length rids)" and f=f and cols="ex_cols ex" and buf=None and acc="[]" and c=c']
    by (cases "seek f (ex_cols ex) cs None rids")
       (auto simp: drain_loop_def seq_ops_def seq_begin_def seq_init_def ok lk rids records_def split: option.splits sum.splits)
  then show ?thesis using scan_filter_ok[OF recs] e by simp
qed

lemma demo_scan_exec:
  "seq_scan_exec demo_sm ''t'' [demo_cond] = Inr (seq_ops ''t'' demo_file (col_layout ''t'' 0 demo_defs) [demo_cond])"
  by (simp add: seq_scan_exec_def demo_sm_def get_table_def Let_def demo_defs_def)

lemma demo_rids: "rm_scan_all demo_file = Inr [Rid 1 0, Rid 1 1, Rid 2 0]"
  by code_simp

lemma demo_lock: "\<exists>c'. ctx_lock (\<lambda>tx. lock_shared_on_table tx (fd demo_file)) demo_ctx = Inr c'"
  by (simp add: ctx_lock_def lock_shared_on_table_def lock_on_def demo_ctx_def demo_txn_def demo_file_def)

theorem seq_scan_returns_filter_witness:
  "seq_scan_exec demo_sm ''t'' [demo_cond] = Inr (seq_ops ''t'' demo_file (col_layout ''t'' 0 demo_defs) [demo_cond]) \<and>
   records (drain_loop 4 (seq_ops ''t'' demo_file (col_layout ''t'' 0 demo_defs) [demo_cond]) push_rec [] (seq_init demo_ctx))
     = Some (Inr [[3, 3]])"
proof -
  obtain c' where lk: "ctx_lock (\<lambda>tx. lock_shared_on_table tx (fd demo_file)) demo_ctx = Inr c'" using demo_lock by blast
  have f: "fhs demo_sm ''t'' = Some demo_file" by (simp add: demo_sm_def Let_def)
  have ok: "check_runtime_conds ''t'' [demo_cond] = Inr ()" by (simp add: check_runtime_conds_def demo_cond_def)
  have recs: "list_all (\<lambda>rid. case heap_abs demo_file rid of None \<Rightarrow> False
      | Some r \<Rightarrow> \<not> isl (eval_conds (ex_cols (seq_ops ''t'' demo_file (col_layout ''t'' 0 demo_defs) [demo_cond])) [demo_cond] r))
      [Rid 1 0, Rid 1 1, Rid 2 0]"
    by code_simp
  have "records (drain_loop (Suc (length [Rid 1 0, Rid 1 1, Rid 2 0])) (seq_ops ''t'' demo_file (col_layout ''t'' 0 demo_defs) [demo_cond])
          push_rec [] (seq_init demo_ctx)) =
        Some (Inr (filter (\<lambda>r. eval_conds (ex_cols (seq_ops ''t'' demo_file (col_layout ''t'' 0 demo_defs) [demo_cond])) [demo_cond] r = Inr True)
          (map (\<lambda>rid. the (heap_abs demo_file rid)) [Rid 1 0, Rid 1 1, Rid 2 0])))"
    using seq_scan_returns_filter[OF demo_scan_exec f ok lk demo_rids recs] .
  moreover have "filter (\<lambda>r. eval_conds (ex_cols (seq_ops ''t'' demo_file (col_layout ''t'' 0 demo_defs) [demo_cond])) [demo_cond] r = Inr True)
          (map (\<lambda>rid. the (heap_abs demo_file rid)) [Rid 1 0, Rid 1 1, Rid 2 0]) = [[3, 3]]"
    by code_simp
  ultimately show ?thesis using demo_scan_exec by (simp add: numeral_eq_Suc)
qed

lemma ins_by_key:
  "sorted (map key ys) \<Longrightarrow>
   \<exists>zs. ins_by (\<lambda>a b. Inr (key a < key b)) x ys = Inr zs \<and> mset zs = add_mset x (mset ys) \<and> sorted (map key zs) \<and>
     (\<forall>k. filter (\<lambda>y. k = key y) zs = filter (\<lambda>y. k = key y) ys @ (if k = key x then [x] else []))"
proof (induction ys)
  case Nil
  then show ?case by simp
next
  case (Cons y ys)
  show ?case
  proof (cases "key x < key y")
    case True
    have "\<forall>z\<in>set (y # ys). key x < key z" using Cons.prems True by (auto intro: less_le_trans)
    then have "filter (\<lambda>z. key x = key z) (y # ys) = []" by (auto simp: filter_empty_conv)
    then show ?thesis using True Cons.prems by (auto simp: less_imp_le intro: order_trans)
  next
  case False
    obtain zs where zs: "ins_by (\<lambda>a b. Inr (key a < key b)) x ys = Inr zs" "mset zs = add_mset x (mset ys)"
      "sorted (map key zs)" "\<forall>k. filter (\<lambda>y. k = key y) zs = filter (\<lambda>y. k = key y) ys @ (if k = key x then [x] else [])"
      using Cons by auto
    have "\<forall>z\<in>set zs. key y \<le> key z"
    proof
      fix z assume "z \<in> set zs"
      then have "z \<in> set (x # ys)" using zs(2) by (metis mset_eq_setD list.set(2) mset.simps(2))
      then show "key y \<le> key z" using Cons.prems False by auto
    qed
    then show ?thesis using False zs by auto
  qed
qed

lemma stable_sort_by_key:
  "sorted (map key acc) \<Longrightarrow>
   \<exists>zs. stable_sort_by (\<lambda>a b. Inr (key a < key b)) acc xs = Inr zs \<and> mset zs = mset acc + mset xs \<and> sorted (map key zs) \<and>
     (\<forall>k. filter (\<lambda>y. k = key y) zs = filter (\<lambda>y. k = key y) acc @ filter (\<lambda>y. k = key y) xs)"
proof (induction xs arbitrary: acc)
  case Nil
  then show ?case by simp
next
  case (Cons x xs)
  obtain zs where zs: "ins_by (\<lambda>a b. Inr (key a < key b)) x acc = Inr zs" "mset zs = add_mset x (mset acc)"
      "sorted (map key zs)" "\<forall>k. filter (\<lambda>y. k = key y) zs = filter (\<lambda>y. k = key y) acc @ (if k = key x then [x] else [])"
    using ins_by_key[OF Cons.prems] by blast
  show ?case using Cons.IH[OF zs(3)] zs by auto
qed

lemma stable_sort_is_sort_key:
  "stable_sort_by (\<lambda>a b. Inr (key a < key b)) [] xs = Inr (sort_key key xs)"
proof -
  obtain zs where zs: "stable_sort_by (\<lambda>a b. Inr (key a < key b)) [] xs = Inr zs" "mset zs = mset xs" "sorted (map key zs)"
     "\<forall>k. filter (\<lambda>y. k = key y) zs = filter (\<lambda>y. k = key y) xs"
    using stable_sort_by_key[of key "[]" xs] by auto
  have "sort_key key xs = zs"
    by (rule properties_for_sort_key) (use zs in auto)
  then show ?thesis using zs(1) by simp
qed

lemma ins_by_opt:
  "ins_by (opt_less lt) (Some x) (map Some ys) = map_sum id (map Some) (ins_by lt x ys)"
proof (induction ys)
  case (Cons y ys)
  then show ?case by (cases "lt x y"; cases "ins_by lt x ys") auto
qed simp

lemma stable_sort_by_opt:
  "stable_sort_by (opt_less lt) (map Some acc) (map Some xs) = map_sum id (map Some) (stable_sort_by lt acc xs)"
  by (induction xs arbitrary: acc) (auto simp: ins_by_opt split: sum.splits)

lemma sort_drain_fold:
  "drop k ts = map Some (drop k ys) \<Longrightarrow> length ts = length ys \<Longrightarrow> length ys - k < n \<Longrightarrow>
   records (drain_fold n (sort_ops fuel prev cols descs lim) push_rec acc \<lparr>so_prev = p, so_tuples = ts, so_ptr = k\<rparr>)
     = Some (Inr (acc @ take (lim - k) (drop k ys)))"
proof (induction n arbitrary: k ts acc)
  case 0
  then show ?case by simp
next
  case (Suc m)
  show ?case
  proof (cases "length ts \<le> k \<or> lim \<le> k")
    case True
    then show ?thesis using Suc.prems by (auto simp: sort_ops_def records_def)
  next
    case False
    then have k: "k < length ys" "k < lim" using Suc.prems by auto
    have tk: "ts ! k = Some (ys ! k)"
      using arg_cong[OF Suc.prems(1), of hd] k Suc.prems(2) by (simp add: hd_map hd_drop_conv_nth)
    have d: "drop (Suc k) (ts[k := None]) = map Some (drop (Suc k) ys)"
    proof -
      have "drop (Suc k) ts = drop 1 (drop k ts)" by (simp add: drop_drop)
      also have "\<dots> = map Some (drop (Suc k) ys)" using Suc.prems(1) by (simp add: drop_map drop_drop)
      finally show ?thesis by (simp add: drop_update_cancel)
    qed
    have IH: "records (drain_fold m (sort_ops fuel prev cols descs lim) push_rec (acc @ [ys ! k])
                \<lparr>so_prev = p, so_tuples = ts[k := None], so_ptr = Suc k\<rparr>)
              = Some (Inr (acc @ [ys ! k] @ take (lim - Suc k) (drop (Suc k) ys)))"
    proof -
      have "length ys - Suc k < m" using Suc.prems(3) k by arith
      then show ?thesis using Suc.IH[OF d, where acc="acc @ [ys ! k]"] Suc.prems(2) by simp
    qed
    have "take (lim - k) (drop k ys) = ys ! k # take (lim - Suc k) (drop (Suc k) ys)"
      using k by (simp add: Cons_nth_drop_Suc[symmetric] take_Cons' del: Cons_nth_drop_Suc)
    then show ?thesis using IH False k tk Suc.prems(2)
      by (simp add: sort_ops_def sort_Next_def push_rec_def[abs_def])
  qed
qed

lemma sort_less_int:
  "cm_type c = TYPE_INT \<Longrightarrow> sort_less [c] [d] r1 r2 =
     Inr (if d then bytes_i32 (drop (cm_offset c) r2) < bytes_i32 (drop (cm_offset c) r1)
          else bytes_i32 (drop (cm_offset c) r1) < bytes_i32 (drop (cm_offset c) r2))"
  by (auto simp: cmp3_def)

lemma sort_from_child:
  assumes child: "records (drain_loop fuel prev push_rec [] s) = Some (Inr rs)"
    and key: "\<And>r1 r2. sort_less cols descs r1 r2 = Inr (key r1 < key r2)"
  shows "records (drain_loop (Suc (length rs)) (sort_ops fuel prev cols descs lim) push_rec [] (sort_init s)) =
           Some (Inr (take lim (sort_key key rs)))"
proof -
  obtain z where z: "drain_loop fuel prev push_rec [] s = Some z" and "map_sum id fst z = Inr rs"
    using child by (auto simp: records_def)
  then obtain ps where d: "drain_loop fuel prev push_rec [] s = Some (Inr (rs, ps))" by (cases z) auto
  have lt: "sort_less cols descs = (\<lambda>a b. Inr (key a < key b))" using key by (intro ext) simp
  have srt: "stable_sort_by (opt_less (sort_less cols descs)) [] (map Some rs) = Inr (map Some (sort_key key rs))"
    using stable_sort_by_opt[where acc="[]" and xs=rs] stable_sort_is_sort_key[of key rs] lt by simp
  have "records (drain_fold (Suc (length rs)) (sort_ops fuel prev cols descs lim) push_rec []
          \<lparr>so_prev = ps, so_tuples = map Some (sort_key key rs), so_ptr = 0\<rparr>) = Some (Inr (take lim (sort_key key rs)))"
    using sort_drain_fold[where k=0 and ts="map Some (sort_key key rs)" and ys="sort_key key rs" and acc="[]" and n="Suc (length rs)"]
    by (simp del: drain_fold.simps)
  then show ?thesis using d srt
    by (simp add: drain_loop_def sort_ops_def sort_begin_def sort_init_def)
qed

text \<open>C17. The sort executor returns the first \<open>limit_cnt\<close> records of its child's output
  in the order of the stable sort by the order columns (the library's \<open>sort_key\<close> when
  the comparator is that of a key), \<open>limit_cnt\<close> read as a \<open>size_t\<close>.\<close>

theorem sort_returns_sorted_prefix:
  assumes child: "records (drain_loop fuel prev push_rec [] s) = Some (Inr rs)"
    and key: "\<And>r1 r2. sort_less (map (ex_get_col_offset prev) order) descs r1 r2 = Inr (key r1 < key r2)"
  shows "records (drain_loop (Suc (length rs)) (sort_exec fuel prev order descs limit) push_rec [] (sort_init s)) =
           Some (Inr (take (unat (word_of_int limit :: 64 word)) (sort_key key rs)))"
  using sort_from_child[OF child key] by (simp add: sort_exec_def)

lemma unat_neg_limit:
  assumes "limit < 0" "- (2 ^ 63) \<le> limit"
  shows "2 ^ 63 \<le> unat (word_of_int limit :: 64 word)"
proof -
  have "limit mod 2 ^ 64 = limit + 2 ^ 64"
  proof -
    have "limit mod 2 ^ 64 = (limit + 2 ^ 64) mod 2 ^ 64" by simp
    also have "\<dots> = limit + 2 ^ 64" using assms by (intro mod_pos_pos_trivial) auto
    finally show ?thesis .
  qed
  then have "uint (word_of_int limit :: 64 word) = limit + 2 ^ 64" by (simp add: uint_word_of_int_eq take_bit_eq_mod)
  then show ?thesis using assms by (simp add: unat_eq_nat_uint)
qed

text \<open>C18. A negative \<open>int\<close> limit (the planner's no-limit sentinel) wraps to a
  \<open>size_t\<close> of at least \<open>2^63\<close>, so the sort executor returns every record of its child,
  sorted.\<close>

theorem sort_negative_limit_returns_all:
  assumes child: "records (drain_loop fuel prev push_rec [] s) = Some (Inr rs)"
    and key: "\<And>r1 r2. sort_less (map (ex_get_col_offset prev) order) descs r1 r2 = Inr (key r1 < key r2)"
    and neg: "limit < 0" "- (2 ^ 31) \<le> limit" and len: "length rs \<le> 2 ^ 63"
  shows "records (drain_loop (Suc (length rs)) (sort_exec fuel prev order descs limit) push_rec [] (sort_init s)) =
           Some (Inr (sort_key key rs))"
proof -
  have "length rs \<le> unat (word_of_int limit :: 64 word)" using unat_neg_limit[of limit] neg len by simp
  then show ?thesis using sort_from_child[OF child key] by (simp add: sort_exec_def)
qed

lemma demo_seq_all:
  "records (drain_loop 4 (seq_ops ''t'' demo_file (col_layout ''t'' 0 demo_defs) []) push_rec [] (seq_init demo_ctx))
     = Some (Inr [[1, 1], [2, 2], [3, 3]])"
  by code_simp

lemma demo_desc_key:
  "sort_less (map (ex_get_col_offset (seq_ops ''t'' demo_file (col_layout ''t'' 0 demo_defs) [])) [\<lparr>tc_tab_name = ''t'', tc_col_name = ''c''\<rparr>]) [True] r1 r2
     = Inr ((\<lambda>r. - bytes_i32 r) r1 < (\<lambda>r. - bytes_i32 r) r2)"
proof -
  have "map (ex_get_col_offset (seq_ops ''t'' demo_file (col_layout ''t'' 0 demo_defs) [])) [\<lparr>tc_tab_name = ''t'', tc_col_name = ''c''\<rparr>]
          = [hd (col_layout ''t'' 0 demo_defs)]"
    by (simp add: seq_ops_def get_col_offset_def demo_defs_def)
  moreover have "cm_type (hd (col_layout ''t'' 0 demo_defs)) = TYPE_INT" "cm_offset (hd (col_layout ''t'' 0 demo_defs)) = 0"
    by (simp_all add: demo_defs_def)
  ultimately show ?thesis by (auto simp: cmp3_def)
qed

theorem sort_returns_sorted_prefix_witness:
  "records (drain_loop 4 (sort_exec 4 (seq_ops ''t'' demo_file (col_layout ''t'' 0 demo_defs) []) [\<lparr>tc_tab_name = ''t'', tc_col_name = ''c''\<rparr>] [True] 2)
      push_rec [] (sort_init (seq_init demo_ctx))) = Some (Inr [[3, 3], [2, 2]])"
proof -
  have "records (drain_loop (Suc (length [[1, 1], [2, 2], [3, 3 :: 8 word]])) (sort_exec 4 (seq_ops ''t'' demo_file (col_layout ''t'' 0 demo_defs) [])
      [\<lparr>tc_tab_name = ''t'', tc_col_name = ''c''\<rparr>] [True] 2) push_rec [] (sort_init (seq_init demo_ctx)))
      = Some (Inr (take (unat (word_of_int 2 :: 64 word)) (sort_key (\<lambda>r. - bytes_i32 r) [[1, 1], [2, 2], [3, 3]])))"
    using sort_returns_sorted_prefix[OF demo_seq_all demo_desc_key] .
  moreover have "take (unat (word_of_int 2 :: 64 word)) (sort_key (\<lambda>r. - bytes_i32 r) [[1, 1], [2, 2], [3, 3 :: 8 word]]) = [[3, 3], [2, 2]]"
    by code_simp
  ultimately show ?thesis by (simp add: numeral_eq_Suc)
qed

theorem sort_negative_limit_returns_all_witness:
  "records (drain_loop 4 (sort_exec 4 (seq_ops ''t'' demo_file (col_layout ''t'' 0 demo_defs) []) [\<lparr>tc_tab_name = ''t'', tc_col_name = ''c''\<rparr>] [True] (-1000))
      push_rec [] (sort_init (seq_init demo_ctx))) = Some (Inr [[3, 3], [2, 2], [1, 1]])"
proof -
  have "records (drain_loop (Suc (length [[1, 1], [2, 2], [3, 3 :: 8 word]])) (sort_exec 4 (seq_ops ''t'' demo_file (col_layout ''t'' 0 demo_defs) [])
      [\<lparr>tc_tab_name = ''t'', tc_col_name = ''c''\<rparr>] [True] (-1000)) push_rec [] (sort_init (seq_init demo_ctx)))
      = Some (Inr (sort_key (\<lambda>r. - bytes_i32 r) [[1, 1], [2, 2], [3, 3]]))"
    by (rule sort_negative_limit_returns_all[OF demo_seq_all demo_desc_key]) simp_all
  moreover have "sort_key (\<lambda>r. - bytes_i32 r) [[1, 1], [2, 2], [3, 3 :: 8 word]] = [[3, 3], [2, 2], [1, 1]]"
    by code_simp
  ultimately show ?thesis by (simp add: numeral_eq_Suc)
qed

lemma drain_fold_inv:
  "drain_fold n ex push_rec acc s = Some (Inr (x, s')) \<Longrightarrow> P a \<Longrightarrow>
   (\<And>a r. P a \<Longrightarrow> g a r = Inr (h a r) \<and> P (h a r)) \<Longrightarrow>
   \<exists>rs. x = acc @ rs \<and> drain_fold n ex g a s = Some (Inr (fold (\<lambda>r a. h a r) rs a, s'))"
proof (induction n arbitrary: acc a s)
  case 0
  then show ?case by simp
next
  case (Suc m)
  show ?case
  proof (cases "ex_is_end ex s")
    case True
    then show ?thesis using Suc.prems(1) by simp
  next
    case False
    then obtain r s1 s2 where nx: "ex_Next ex s = Inr (r, s1)" "ex_next ex s1 = Inr s2"
      and d: "drain_fold m ex push_rec (acc @ [r]) s2 = Some (Inr (x, s'))"
      using Suc.prems(1) by (auto simp: push_rec_def[abs_def] split: sum.splits)
    have g: "g a r = Inr (h a r)" "P (h a r)" using Suc.prems(2,3) by auto
    obtain rs where "x = (acc @ [r]) @ rs" "drain_fold m ex g (h a r) s2 = Some (Inr (fold (\<lambda>r a. h a r) rs (h a r), s'))"
      using Suc.IH[OF d g(2) Suc.prems(3)] by blast
    then show ?thesis using False nx g(1) by (intro exI[of _ "r # rs"]) simp
  qed
qed

lemma int32_range: "INT_MIN \<le> bytes_i32 bs \<and> bytes_i32 bs \<le> INT_MAX"
  using sint_ge[of "word_of_int (le_dec (take 4 bs)) :: 32 word"] sint_lt[of "word_of_int (le_dec (take 4 bs)) :: 32 word"]
  by (simp add: bytes_i32_def INT_MIN_def INT_MAX_def)

lemma sint32_of_int: "INT_MIN \<le> x \<Longrightarrow> x \<le> INT_MAX \<Longrightarrow> sint (word_of_int x :: 32 word) = x"
  by (simp add: sint_sbintrunc' signed_take_bit_int_eq_self INT_MIN_def INT_MAX_def)

lemma fold_sum_int:
  assumes "agre_type v = AGRE_TYPE_SUM" "agre_col_type v = TYPE_INT"
  shows "fold (\<lambda>r v. projr (add_value fadd (drop off r) 4 v)) rs v =
           v\<lparr>agre_num := agre_num v + word_of_int (sum_list (map (\<lambda>r. bytes_i32 (drop off r)) rs))\<rparr>"
  using assms
proof (induction rs arbitrary: v)
  case (Cons r rs)
  let ?x = "bytes_i32 (drop off r)"
  have step: "projr (add_value fadd (drop off r) 4 v) = v\<lparr>agre_num := agre_num v + word_of_int ?x\<rparr>"
    using Cons.prems by (simp add: add_value_def)
  have "word_of_int (?x + sum_list (map (\<lambda>r. bytes_i32 (drop off r)) rs)) =
          (word_of_int ?x + word_of_int (sum_list (map (\<lambda>r. bytes_i32 (drop off r)) rs)) :: 32 word)"
    by (rule of_int_add)
  then show ?case using Cons.IH[of "v\<lparr>agre_num := agre_num v + word_of_int ?x\<rparr>"] Cons.prems step
    by (simp add: add.assoc)
qed simp

lemma fold_max_int:
  assumes "agre_type v = AGRE_TYPE_MAX" "agre_col_type v = TYPE_INT" "agre_num v = word_of_int m"
    "INT_MIN \<le> m" "m \<le> INT_MAX"
  shows "fold (\<lambda>r v. projr (add_value fadd (drop off r) 4 v)) rs v =
           v\<lparr>agre_num := word_of_int (fold max (map (\<lambda>r. bytes_i32 (drop off r)) rs) m)\<rparr>"
  using assms
proof (induction rs arbitrary: v m)
  case Nil
  then show ?case by simp
next
  case (Cons r rs)
  let ?x = "bytes_i32 (drop off r)"
  have x: "INT_MIN \<le> ?x" "?x \<le> INT_MAX" using int32_range by auto
  have step: "projr (add_value fadd (drop off r) 4 v) = v\<lparr>agre_num := word_of_int (max ?x m)\<rparr>"
    using Cons.prems sint32_of_int[OF Cons.prems(4,5)] by (auto simp: add_value_def max_def)
  show ?case using Cons.IH[of "v\<lparr>agre_num := word_of_int (max ?x m)\<rparr>" "max ?x m"] Cons.prems x step
    by (simp add: max.commute)
qed

lemma fold_min_int:
  assumes "agre_type v = AGRE_TYPE_MIN" "agre_col_type v = TYPE_INT" "agre_num v = word_of_int m"
    "INT_MIN \<le> m" "m \<le> INT_MAX"
  shows "fold (\<lambda>r v. projr (add_value fadd (drop off r) 4 v)) rs v =
           v\<lparr>agre_num := word_of_int (fold min (map (\<lambda>r. bytes_i32 (drop off r)) rs) m)\<rparr>"
  using assms
proof (induction rs arbitrary: v m)
  case Nil
  then show ?case by simp
next
  case (Cons r rs)
  let ?x = "bytes_i32 (drop off r)"
  have x: "INT_MIN \<le> ?x" "?x \<le> INT_MAX" using int32_range by auto
  have step: "projr (add_value fadd (drop off r) 4 v) = v\<lparr>agre_num := word_of_int (min ?x m)\<rparr>"
    using Cons.prems sint32_of_int[OF Cons.prems(4,5)] by (auto simp: add_value_def min_def)
  show ?case using Cons.IH[of "v\<lparr>agre_num := word_of_int (min ?x m)\<rparr>" "min ?x m"] Cons.prems x step
    by (simp add: min.commute)
qed

lemma fold_pair_step:
  "fold (\<lambda>r a. ([g (hd (fst a)) r], snd a + 1)) xs ([v], n) = ([fold (\<lambda>r v. g v r) xs v], n + of_nat (length xs))"
  by (induction xs arbitrary: v n) (simp_all add: add.assoc)

lemma agg_drain:
  assumes child: "records (drain_loop fuel prev push_rec [] s) = Some (Inr rs)"
    and lay: "agg_layout (ex_cols prev) 0 [(at, t)] = ([c'], [a])"
    and ini: "agg_init [at] [c'] = Inr [v0]" "agre_type v0 = at" "agre_col_type v0 = TYPE_INT"
    and stp: "\<And>v r. agre_type v = at \<Longrightarrow> agre_col_type v = TYPE_INT \<Longrightarrow>
               add_values fadd [c'] r [v] = Inr [stepv v r] \<and> agre_type (stepv v r) = at \<and> agre_col_type (stepv v r) = TYPE_INT"
  shows "\<exists>ex st. aggregation_exec fuel fadd prev [(at, t)] s = Inr (ex, st) \<and>
           records (drain_loop 2 ex push_rec [] st) =
             Some (map_sum id (\<lambda>out. [out]) (agg_output (of_nat (length rs)) [fold (\<lambda>r v. stepv v r) rs v0] [a]))"
proof -
  obtain z where z: "drain_loop fuel prev push_rec [] s = Some z" and "map_sum id fst z = Inr rs"
    using child by (auto simp: records_def)
  then obtain ps where d: "drain_loop fuel prev push_rec [] s = Some (Inr (rs, ps))" by (cases z) auto
  then obtain s1 where b: "ex_begin prev s = Some (Inr s1)" and d1: "drain_fold fuel prev push_rec [] s1 = Some (Inr (rs, ps))"
    by (auto simp: drain_loop_def split: option.splits sum.splits)
  define P where "P = (\<lambda>(vs :: AgreValue list, n :: 32 word). \<exists>v. vs = [v] \<and> agre_type v = at \<and> agre_col_type v = TYPE_INT)"
  define h where "h = (\<lambda>(a :: AgreValue list \<times> 32 word) r. ([stepv (hd (fst a)) r], snd a + 1))"
  have inv: "\<And>a r. P a \<Longrightarrow> agg_step fadd [c'] a r = Inr (h a r) \<and> P (h a r)"
    using stp by (auto simp: P_def h_def agg_step_def)
  have p0: "P ([v0], 0)" using ini by (simp add: P_def)
  obtain rs' where "rs = [] @ rs'"
    and df: "drain_fold fuel prev (agg_step fadd [c']) ([v0], 0) s1 = Some (Inr (fold (\<lambda>r a. h a r) rs' ([v0], 0), ps))"
    using drain_fold_inv[where g="agg_step fadd [c']" and h=h and P=P, OF d1 p0 inv] by blast
  then have df': "drain_loop fuel prev (agg_step fadd [c']) ([v0], 0) s =
      Some (Inr (([fold (\<lambda>r v. stepv v r) rs v0], of_nat (length rs)), ps))"
    using b fold_pair_step[of stepv rs v0 0] by (simp add: drain_loop_def h_def)
  have ex: "aggregation_exec fuel fadd prev [(at, t)] s =
      Inr (agg_ops fuel fadd prev [c'] [a], \<lparr>ag_prev = s, ag_values = [v0], all_count = 0, end_flag = False\<rparr>)"
    using lay ini(1) by (simp add: aggregation_exec_def)
  show ?thesis
    using df'
    by (cases "agg_output (of_nat (length rs)) [fold (\<lambda>r v. stepv v r) rs v0] [a]")
       (auto simp: ex agg_ops_def agg_begin_def drain_loop_def records_def push_rec_def numeral_2_eq_2
        simp del: agg_output.simps)
qed

lemma fold_const_state: "fold (\<lambda>r v. v) xs v = v"
  by (induction xs) simp_all

lemma add_values_num:
  "agre_col_type v = TYPE_INT \<Longrightarrow> agre_type v \<in> {AGRE_TYPE_SUM, AGRE_TYPE_MAX, AGRE_TYPE_MIN} \<Longrightarrow> cm_len c = 4 \<Longrightarrow>
   add_values fadd [c] r [v] = Inr [projr (add_value fadd (drop (cm_offset c) r) 4 v)] \<and>
   agre_type (projr (add_value fadd (drop (cm_offset c) r) 4 v)) = agre_type v \<and>
   agre_col_type (projr (add_value fadd (drop (cm_offset c) r) 4 v)) = TYPE_INT"
  by (auto simp: add_value_def Let_def)

lemma add_values_count:
  "agre_type v \<in> {AGRE_TYPE_COUNT, AGRE_TYPE_COUNT_ALL} \<Longrightarrow> add_values fadd [c] r [v] = Inr [v]"
  by auto

text \<open>C33. Over an \<open>int\<close> column of its child, the aggregation executor is built and
  returns exactly one row: the 4 bytes of \<open>SUM\<close> (the sum wrapped to 32 bits), \<open>MAX\<close>
  (from \<open>INT_MIN\<close>), \<open>MIN\<close> (from \<open>INT_MAX\<close>) or the row count for \<open>COUNT\<close> and
  \<open>COUNT(*)\<close>.\<close>

theorem aggregation_single_int_column:
  assumes child: "records (drain_loop fuel prev push_rec [] s) = Some (Inr rs)"
    and col: "find (\<lambda>c. tc_tab_name t = cm_tab_name c \<and> tc_col_name t = cm_name c) (ex_cols prev) = Some c"
      "cm_type c = TYPE_INT" "cm_len c = 4"
  shows "\<exists>ex st. aggregation_exec fuel fadd prev [(at, t)] s = Inr (ex, st) \<and>
           records (drain_loop 2 ex push_rec [] st) =
             Some (Inr [le_enc 4 (uint (word_of_int (agg_result at (map (\<lambda>r. bytes_i32 (drop (cm_offset c) r)) rs)) :: 32 word))])"
proof -
  let ?gc = "get_col_meta (ex_cols prev) t"
  let ?vals = "map (\<lambda>r. bytes_i32 (drop (cm_offset c) r)) rs"
  let ?a = "default_col\<lparr>cm_type := TYPE_INT, cm_len := 4, cm_offset := 0\<rparr>"
  let ?num = "\<lambda>v r. projr (add_value fadd (drop (cm_offset c) r) 4 v)"
  have gc: "cm_type ?gc = TYPE_INT" "cm_len ?gc = 4" "cm_offset ?gc = cm_offset c"
    using col by (simp_all add: get_col_meta_def)
  have lay: "at \<noteq> AGRE_TYPE_COUNT_ALL \<Longrightarrow> agg_layout (ex_cols prev) 0 [(at, t)] = ([?gc], [?a])"
    using gc by (simp add: default_col_def Let_def)
  define v0 where "v0 = agre_fresh\<lparr>agre_col_type := TYPE_INT, agre_type := at\<rparr>"
  have v0: "agre_type v0 = at" "agre_col_type v0 = TYPE_INT" by (simp_all add: v0_def agre_fresh_def)
  have num: "at \<in> {AGRE_TYPE_SUM, AGRE_TYPE_MAX, AGRE_TYPE_MIN} \<Longrightarrow> agre_type v = at \<Longrightarrow> agre_col_type v = TYPE_INT \<Longrightarrow>
      add_values fadd [?gc] r [v] = Inr [?num v r] \<and> agre_type (?num v r) = at \<and> agre_col_type (?num v r) = TYPE_INT" for v r
    using add_values_num[of v ?gc fadd r] gc by simp
  show ?thesis
  proof (cases at)
    case AGRE_TYPE_SUM
    have ini: "agg_init [at] [?gc] = Inr [v0\<lparr>agre_num := 0\<rparr>]"
      using gc AGRE_TYPE_SUM by (simp add: init_agre_raw_def v0_def)
    have "fold (\<lambda>r v. ?num v r) rs (v0\<lparr>agre_num := 0\<rparr>) = v0\<lparr>agre_num := word_of_int (sum_list ?vals)\<rparr>"
      using fold_sum_int[of "v0\<lparr>agre_num := 0\<rparr>" fadd "cm_offset c" rs] v0 AGRE_TYPE_SUM by simp
    then have out: "agg_output (of_nat (length rs)) [fold (\<lambda>r v. ?num v r) rs (v0\<lparr>agre_num := 0\<rparr>)] [?a] =
        Inr (le_enc 4 (uint (word_of_int (sum_list ?vals) :: 32 word)))"
      using v0 AGRE_TYPE_SUM by (simp add: get_value_def)
    show ?thesis
      using agg_drain[where stepv = ?num, OF child lay ini] v0 num out AGRE_TYPE_SUM
      by (simp add: agg_result_def)
  next
    case AGRE_TYPE_MAX
    have ini: "agg_init [at] [?gc] = Inr [v0\<lparr>agre_num := word_of_int INT_MIN\<rparr>]"
      using gc AGRE_TYPE_MAX by (simp add: init_agre_raw_def v0_def)
    have "fold (\<lambda>r v. ?num v r) rs (v0\<lparr>agre_num := word_of_int INT_MIN\<rparr>) = v0\<lparr>agre_num := word_of_int (fold max ?vals INT_MIN)\<rparr>"
      using fold_max_int[of "v0\<lparr>agre_num := word_of_int INT_MIN\<rparr>" INT_MIN fadd "cm_offset c" rs] v0 AGRE_TYPE_MAX
      by (simp add: INT_MIN_def INT_MAX_def)
    then have out: "agg_output (of_nat (length rs)) [fold (\<lambda>r v. ?num v r) rs (v0\<lparr>agre_num := word_of_int INT_MIN\<rparr>)] [?a] =
        Inr (le_enc 4 (uint (word_of_int (fold max ?vals INT_MIN) :: 32 word)))"
      using v0 AGRE_TYPE_MAX by (simp add: get_value_def)
    show ?thesis
      using agg_drain[where stepv = ?num, OF child lay ini] v0 num out AGRE_TYPE_MAX
      by (simp add: agg_result_def)
  next
    case AGRE_TYPE_MIN
    have ini: "agg_init [at] [?gc] = Inr [v0\<lparr>agre_num := word_of_int INT_MAX\<rparr>]"
      using gc AGRE_TYPE_MIN by (simp add: init_agre_raw_def v0_def)
    have "fold (\<lambda>r v. ?num v r) rs (v0\<lparr>agre_num := word_of_int INT_MAX\<rparr>) = v0\<lparr>agre_num := word_of_int (fold min ?vals INT_MAX)\<rparr>"
      using fold_min_int[of "v0\<lparr>agre_num := word_of_int INT_MAX\<rparr>" INT_MAX fadd "cm_offset c" rs] v0 AGRE_TYPE_MIN
      by (simp add: INT_MIN_def INT_MAX_def)
    then have out: "agg_output (of_nat (length rs)) [fold (\<lambda>r v. ?num v r) rs (v0\<lparr>agre_num := word_of_int INT_MAX\<rparr>)] [?a] =
        Inr (le_enc 4 (uint (word_of_int (fold min ?vals INT_MAX) :: 32 word)))"
      using v0 AGRE_TYPE_MIN by (simp add: get_value_def)
    show ?thesis
      using agg_drain[where stepv = ?num, OF child lay ini] v0 num out AGRE_TYPE_MIN
      by (simp add: agg_result_def)
  next
    case AGRE_TYPE_COUNT
    have ini: "agg_init [at] [?gc] = Inr [v0]"
      using gc AGRE_TYPE_COUNT by (simp add: init_agre_raw_def v0_def)
    have out: "agg_output (of_nat (length rs)) [fold (\<lambda>r v. v) rs v0] [?a] =
        Inr (le_enc 4 (uint (of_nat (length rs) :: 32 word)))"
      using v0 AGRE_TYPE_COUNT fold_const_state[of rs v0] by (simp add: Let_def)
    show ?thesis
      using agg_drain[where stepv = "\<lambda>v r. v", OF child lay ini] v0 out AGRE_TYPE_COUNT
      by (simp add: agg_result_def)
  next
    case AGRE_TYPE_COUNT_ALL
    have lay0: "agg_layout (ex_cols prev) 0 [(at, t)] = ([default_col], [?a])"
      using AGRE_TYPE_COUNT_ALL by (simp add: default_col_def Let_def)
    have ini: "agg_init [at] [default_col] = Inr [v0]"
      using AGRE_TYPE_COUNT_ALL by (simp add: init_agre_raw_def v0_def)
    have out: "agg_output (of_nat (length rs)) [fold (\<lambda>r v. v) rs v0] [?a] =
        Inr (le_enc 4 (uint (of_nat (length rs) :: 32 word)))"
      using v0 AGRE_TYPE_COUNT_ALL fold_const_state[of rs v0] by (simp add: Let_def)
    show ?thesis
      using agg_drain[where stepv = "\<lambda>v r. v", OF child lay0 ini] v0 out AGRE_TYPE_COUNT_ALL
      by (simp add: agg_result_def)
  qed
qed

lemma demo_iscan:
  "records (drain_loop 5 (seq_ops ''u'' demo_ifile demo_icols []) push_rec [] (seq_init demo_ctx))
     = Some (Inr [le_enc 4 (-5), le_enc 4 7, le_enc 4 7, le_enc 4 9])"
  by code_simp

theorem aggregation_single_int_column_witness:
  "\<exists>ex st. aggregation_exec 5 (+) (seq_ops ''u'' demo_ifile demo_icols []) [(AGRE_TYPE_SUM, \<lparr>tc_tab_name = ''u'', tc_col_name = ''a''\<rparr>)]
       (seq_init demo_ctx) = Inr (ex, st) \<and>
     records (drain_loop 2 ex push_rec [] st) = Some (Inr [le_enc 4 18])"
proof -
  have col: "find (\<lambda>c. tc_tab_name \<lparr>tc_tab_name = ''u'', tc_col_name = ''a''\<rparr> = cm_tab_name c \<and>
      tc_col_name \<lparr>tc_tab_name = ''u'', tc_col_name = ''a''\<rparr> = cm_name c) (ex_cols (seq_ops ''u'' demo_ifile demo_icols []))
      = Some (hd demo_icols)"
    by (simp add: seq_ops_def demo_icols_def)
  have "agg_result AGRE_TYPE_SUM (map (\<lambda>r. bytes_i32 (drop (cm_offset (hd demo_icols)) r)) [le_enc 4 (-5), le_enc 4 7, le_enc 4 7, le_enc 4 9]) = 18"
    by code_simp
  then show ?thesis
    using aggregation_single_int_column[where fadd="(+)" and at=AGRE_TYPE_SUM, OF demo_iscan col] by (simp add: demo_icols_def)
qed

end
