(* ===== verification/Exec_DML.thy ===== *)
theory Exec_DML
  imports Executors
begin

text \<open>
  The write executors of \<open>execution/\<close>: \<open>InsertExecutor\<close>, \<open>DeleteExecutor\<close> and
  \<open>UpdateExecutor\<close>, each a constructor and one \<open>Next()\<close> that does the work, over the
  catalog, the heap files and the abstract indexes of \<open>System_Manager\<close>. The state
  they change is returned: the system manager (its file handles and index handles)
  and the context (locks, write set and log).
\<close>

section \<open>The index calls\<close>

text \<open>\<open>IxIndexHandle::delete_entry\<close> on the key-to-rid contents: the key's entry goes.\<close>

definition ix_delete_entry :: "8 word list \<Rightarrow> ix_handle \<Rightarrow> ix_handle" where
  "ix_delete_entry k ih = ih(k := None)"

text \<open>The key of a record in an index: its first \<open>col_num\<close> columns, copied one after
  the other.\<close>

definition ix_key :: "IndexMeta \<Rightarrow> rm_record \<Rightarrow> 8 word list" where
  "ix_key ix r = index_key (take (col_num ix) (im_cols ix)) r"

section \<open>Insert\<close>

text \<open>The constructor (\<open>get_table\<close>, \<open>fhs_.at\<close>, the value count) and \<open>Next()\<close>, which
  is \<open>insert_rec\<close>.\<close>

definition insert_exec :: "sm_manager \<Rightarrow> string \<Rightarrow> Value list \<Rightarrow> rm_context option \<Rightarrow>
    (exec_error + Rid \<times> sm_manager) \<times> rm_context option" where
  "insert_exec sm t vs ctx =
     (case get_table (db sm) t of
        Inl e \<Rightarrow> (Inl (ExecMetaError e), ctx)
      | Inr tab \<Rightarrow>
          if fhs sm t = None then (Inl (ExecMetaError (MetaOutOfRange t)), ctx)
          else if length vs \<noteq> length (tm_cols tab) then (Inl InvalidValueCountError, ctx)
          else (case insert_rec t vs tab ctx sm of (r, c) \<Rightarrow> (map_sum ExecSmError id r, c)))"

section \<open>Table locks of delete and update\<close>

text \<open>One rid: an IX lock on the table, and record locks; more rids: an X lock on the
  table and no record locks (\<open>add_lock = false\<close>); no rid: no lock. The context is
  dereferenced when there is a rid.\<close>

definition dml_table_lock :: "nat \<Rightarrow> file_fd \<Rightarrow> rm_context option \<Rightarrow> exec_error + rm_context option \<times> bool" where
  "dml_table_lock n fdv ctx =
     (if n = 0 then Inr (ctx, True)
      else case ctx of
             None \<Rightarrow> Inl ExecAssertFailure
           | Some c \<Rightarrow>
               (case ctx_lock (\<lambda>t. if n = 1 then lock_IX_on_table t fdv else lock_exclusive_on_table t fdv) c of
                  Inl e \<Rightarrow> Inl (ExecRmError e)
                | Inr c' \<Rightarrow> Inr (Some c', n = 1)))"

section \<open>Delete\<close>

text \<open>For each index of the table, \<open>ihs_.at\<close> of its name, and the key of the
  pre-image deleted from it.\<close>

fun delete_from_indexes :: "string \<Rightarrow> IndexMeta list \<Rightarrow> rm_record \<Rightarrow> sm_manager \<Rightarrow> exec_error + sm_manager" where
  "delete_from_indexes t [] r sm = Inr sm"
| "delete_from_indexes t (ix # ixs) r sm =
     (case ihs sm (index_name t (im_cols ix)) of
        None \<Rightarrow> Inl (ExecMetaError (MetaOutOfRange t))
      | Some ih \<Rightarrow>
          delete_from_indexes t ixs r (sm\<lparr>ihs := (ihs sm)(index_name t (im_cols ix) \<mapsto> ix_delete_entry (ix_key ix r) ih)\<rparr>))"

text \<open>The loop over the rids: the pre-image, the heap delete, the index entries. An
  error stops it with the work done so far kept.\<close>

fun delete_rids :: "string \<Rightarrow> TabMeta \<Rightarrow> bool \<Rightarrow> Rid list \<Rightarrow> rm_file \<Rightarrow> rm_context option \<Rightarrow> sm_manager \<Rightarrow>
    (exec_error + unit) \<times> rm_file \<times> rm_context option \<times> sm_manager" where
  "delete_rids t tab al [] f ctx sm = (Inr (), f, ctx, sm)"
| "delete_rids t tab al (rid # rids) f ctx sm =
     (case get_record_lock rid al ctx f of
        (Inl e, c1) \<Rightarrow> (Inl (ExecRmError e), f, c1, sm)
      | (Inr r, c1) \<Rightarrow>
          (case delete_record_lock rid al c1 f of
             (Inl e, f1, c2) \<Rightarrow> (Inl (ExecRmError e), f1, c2, sm)
           | (Inr _, f1, c2) \<Rightarrow>
               (case delete_from_indexes t (tm_indexes tab) r sm of
                  Inl e \<Rightarrow> (Inl e, f1, c2, sm)
                | Inr sm1 \<Rightarrow> delete_rids t tab al rids f1 c2 sm1)))"

text \<open>The constructor and \<open>Next()\<close>; the file handle is the one in \<open>fhs_\<close>, so the
  changed file is stored back under the table's name.\<close>

definition delete_exec :: "sm_manager \<Rightarrow> string \<Rightarrow> Rid list \<Rightarrow> rm_context option \<Rightarrow>
    (exec_error + unit) \<times> sm_manager \<times> rm_context option" where
  "delete_exec sm t rids ctx =
     (case get_table (db sm) t of
        Inl e \<Rightarrow> (Inl (ExecMetaError e), sm, ctx)
      | Inr tab \<Rightarrow>
          (case fhs sm t of
             None \<Rightarrow> (Inl (ExecMetaError (MetaOutOfRange t)), sm, ctx)
           | Some f \<Rightarrow>
               (case dml_table_lock (length rids) (fd f) ctx of
                  Inl e \<Rightarrow> (Inl e, sm, ctx)
                | Inr (c1, al) \<Rightarrow>
                    (case delete_rids t tab al rids f c1 sm of
                       (res, f', c2, sm') \<Rightarrow> (res, sm'\<lparr>fhs := (fhs sm')(t \<mapsto> f')\<rparr>, c2)))))"

section \<open>Update\<close>

text \<open>The first loop over the set clauses: an \<open>int\<close> value for a \<open>bigint\<close> column
  becomes a \<open>bigint\<close> (the \<open>int\<close> member read after the tag changed: the same low half,
  sign-extended).\<close>

fun coerce_set_clauses :: "TabMeta \<Rightarrow> SetClause list \<Rightarrow> exec_error + SetClause list" where
  "coerce_set_clauses tab [] = Inr []"
| "coerce_set_clauses tab (sc # scs) =
     (case get_col tab (tc_col_name (set_lhs sc)) of
        Inl e \<Rightarrow> Inl (ExecMetaError e)
      | Inr c \<Rightarrow>
          (let sc' = (if cm_type c = TYPE_BIGINT \<and> val_type (set_rhs sc) = TYPE_INT
                      then sc\<lparr>set_rhs := set_bigint (int_val (set_rhs sc)) ((set_rhs sc)\<lparr>val_type := TYPE_BIGINT\<rparr>)\<rparr>
                      else sc)
           in map_sum id (Cons sc') (coerce_set_clauses tab scs)))"

text \<open>\<open>update_rhs_val(rec, lhs_col, rhs, op)\<close>, on a copy of the value: for \<open>+\<close> and
  \<open>-\<close> (every operator but \<open>OP_ASSIGN\<close>; any but \<open>OP_PLUS\<close> subtracts) the column's
  current value and the value's member combined, wrapping at the type's width
  (\<open>fadd\<close>, \<open>fsub\<close> the float operations); a string or datetime fails the assertion.
  Then the raw bytes (made by \<open>init_raw\<close> when there are none) are copied over the
  column.\<close>

definition update_rhs_val :: "(32 word \<Rightarrow> 32 word \<Rightarrow> 32 word) \<Rightarrow> (32 word \<Rightarrow> 32 word \<Rightarrow> 32 word) \<Rightarrow>
    rm_record \<Rightarrow> ColMeta \<Rightarrow> Value \<Rightarrow> SetOp \<Rightarrow> exec_error + rm_record" where
  "update_rhs_val fadd fsub r c rhs op =
     (let des = drop (cm_offset c) r; plus = (op = OP_PLUS)
      in case (if op = OP_ASSIGN then Inr rhs
               else if cm_type c \<noteq> val_type rhs then Inl ExecAssertFailure
               else if cm_type c = TYPE_INT then
                 Inr (set_int (if plus then bytes_i32 des + int_val rhs else bytes_i32 des - int_val rhs) rhs)
               else if cm_type c = TYPE_FLOAT then
                 Inr (set_float (if plus then fadd (bytes_f32 des) (float_val rhs) else fsub (bytes_f32 des) (float_val rhs)) rhs)
               else if cm_type c = TYPE_BIGINT then
                 Inr (set_bigint (if plus then bytes_i64 des + bigint_val rhs else bytes_i64 des - bigint_val rhs) rhs)
               else Inl ExecAssertFailure) of
           Inl e \<Rightarrow> Inl e
         | Inr v \<Rightarrow>
             (case (if raw v = None then map_sum ExecValueError id (init_raw (cm_len c) v) else Inr v) of
                Inl e \<Rightarrow> Inl e
              | Inr v' \<Rightarrow> Inr (put_bytes (cm_offset c) (take (cm_len c) (the (raw v'))) r)))"

text \<open>The loop over the set clauses for one record: a datetime column takes the
  string as a datetime, which must be valid, and the clause keeps that change; the
  types must then agree.\<close>

fun apply_set_clauses :: "(32 word \<Rightarrow> 32 word \<Rightarrow> 32 word) \<Rightarrow> (32 word \<Rightarrow> 32 word \<Rightarrow> 32 word) \<Rightarrow> TabMeta \<Rightarrow>
    SetClause list \<Rightarrow> rm_record \<Rightarrow> exec_error + SetClause list \<times> rm_record" where
  "apply_set_clauses fadd fsub tab [] r = Inr ([], r)"
| "apply_set_clauses fadd fsub tab (sc # scs) r =
     (case get_col tab (tc_col_name (set_lhs sc)) of
        Inl e \<Rightarrow> Inl (ExecMetaError e)
      | Inr c \<Rightarrow>
          (case (if cm_type c = TYPE_DATETIME then
                   (let v = (set_rhs sc)\<lparr>datetime_val := str_val (set_rhs sc)\<rparr>
                    in if \<not> check_datetime (datetime_val v) then Inl (InvalidValueError (datetime_val v))
                       else Inr (sc\<lparr>set_rhs := v\<lparr>val_type := TYPE_DATETIME\<rparr>\<rparr>))
                 else Inr sc) of
             Inl e \<Rightarrow> Inl e
           | Inr sc1 \<Rightarrow>
               if cm_type c \<noteq> val_type (set_rhs sc1) then Inl (IncompatibleTypeError (cm_type c) (val_type (set_rhs sc1)))
               else (case update_rhs_val fadd fsub r c (set_rhs sc1) (set_op sc1) of
                       Inl e \<Rightarrow> Inl e
                     | Inr r1 \<Rightarrow> map_sum id (\<lambda>(scs', r2). (sc1 # scs', r2)) (apply_set_clauses fadd fsub tab scs r1))))"

text \<open>The loop over the rids: each record read (with its lock) and its post-image.\<close>

fun post_images :: "(32 word \<Rightarrow> 32 word \<Rightarrow> 32 word) \<Rightarrow> (32 word \<Rightarrow> 32 word \<Rightarrow> 32 word) \<Rightarrow> TabMeta \<Rightarrow> bool \<Rightarrow>
    rm_file \<Rightarrow> Rid list \<Rightarrow> SetClause list \<Rightarrow> rm_context option \<Rightarrow>
    (exec_error + SetClause list \<times> rm_record list) \<times> rm_context option" where
  "post_images fadd fsub tab al f [] scs ctx = (Inr (scs, []), ctx)"
| "post_images fadd fsub tab al f (rid # rids) scs ctx =
     (case get_record_lock rid al ctx f of
        (Inl e, c1) \<Rightarrow> (Inl (ExecRmError e), c1)
      | (Inr r, c1) \<Rightarrow>
          (case apply_set_clauses fadd fsub tab scs r of
             Inl e \<Rightarrow> (Inl e, c1)
           | Inr (scs1, r1) \<Rightarrow>
               (case post_images fadd fsub tab al f rids scs1 c1 of
                  (Inl e, c2) \<Rightarrow> (Inl e, c2)
                | (Inr (scs2, rs), c2) \<Rightarrow> (Inr (scs2, r1 # rs), c2))))"

text \<open>The indexes the update touches: those with a column some set clause assigns.\<close>

definition conflict_indexes :: "TabMeta \<Rightarrow> SetClause list \<Rightarrow> IndexMeta list" where
  "conflict_indexes tab scs =
     filter (\<lambda>ix. list_ex (\<lambda>sc. list_ex (\<lambda>c. tc_col_name (set_lhs sc) = cm_name c) (im_cols ix)) scs) (tm_indexes tab)"

text \<open>The unique-index check of one post-image: in each touched index, its key fails
  when the index holds it or when it is in \<open>vis\<close>, the keys seen so far (of every
  index: one map for all of them).\<close>

fun check_keys :: "string \<Rightarrow> IndexMeta list \<Rightarrow> sm_manager \<Rightarrow> rm_record \<Rightarrow> 8 word list list \<Rightarrow>
    exec_error + bool \<times> 8 word list list" where
  "check_keys t [] sm r vis = Inr (False, vis)"
| "check_keys t (ix # ixs) sm r vis =
     (case ihs sm (index_name t (im_cols ix)) of
        None \<Rightarrow> Inl (ExecMetaError (MetaOutOfRange t))
      | Some ih \<Rightarrow>
          (let k = ix_key ix r
           in map_sum id (\<lambda>(b, vis'). (ix_binary_search k ih \<or> k \<in> set vis \<or> b, vis'))
                (check_keys t ixs sm r (k # vis))))"

fun unique_precheck :: "string \<Rightarrow> IndexMeta list \<Rightarrow> sm_manager \<Rightarrow> rm_record list \<Rightarrow> 8 word list list \<Rightarrow> exec_error + unit" where
  "unique_precheck t ixs sm [] vis = Inr ()"
| "unique_precheck t ixs sm (r # rs) vis =
     (case check_keys t ixs sm r vis of
        Inl e \<Rightarrow> Inl e
      | Inr (failed, vis') \<Rightarrow>
          if failed then Inl (ExecInternalError ''Error: update duplicated indexes.'')
          else unique_precheck t ixs sm rs vis')"

text \<open>In each touched index, the old key's entry deleted and the new key inserted.\<close>

fun swap_index_entries :: "string \<Rightarrow> IndexMeta list \<Rightarrow> rm_record \<Rightarrow> rm_record \<Rightarrow> Rid \<Rightarrow> sm_manager \<Rightarrow>
    exec_error + sm_manager" where
  "swap_index_entries t [] old new rid sm = Inr sm"
| "swap_index_entries t (ix # ixs) old new rid sm =
     (case ihs sm (index_name t (im_cols ix)) of
        None \<Rightarrow> Inl (ExecMetaError (MetaOutOfRange t))
      | Some ih \<Rightarrow>
          (case ix_insert_entry (ix_key ix new) rid (ix_delete_entry (ix_key ix old) ih) of
             Inl e \<Rightarrow> Inl (ExecSmError e)
           | Inr ih' \<Rightarrow> swap_index_entries t ixs old new rid (sm\<lparr>ihs := (ihs sm)(index_name t (im_cols ix) \<mapsto> ih')\<rparr>)))"

text \<open>The last loop: each record read again, overwritten with its post-image, and its
  index entries moved.\<close>

fun write_updates :: "string \<Rightarrow> IndexMeta list \<Rightarrow> bool \<Rightarrow> Rid list \<Rightarrow> rm_record list \<Rightarrow> rm_file \<Rightarrow>
    rm_context option \<Rightarrow> sm_manager \<Rightarrow> (exec_error + unit) \<times> rm_file \<times> rm_context option \<times> sm_manager" where
  "write_updates t ixs al [] news f ctx sm = (Inr (), f, ctx, sm)"
| "write_updates t ixs al (rid # rids) news f ctx sm =
     (case get_record_lock rid al ctx f of
        (Inl e, c1) \<Rightarrow> (Inl (ExecRmError e), f, c1, sm)
      | (Inr old, c1) \<Rightarrow>
          (case update_record_lock rid (hd news) al c1 f of
             (Inl e, f1, c2) \<Rightarrow> (Inl (ExecRmError e), f1, c2, sm)
           | (Inr _, f1, c2) \<Rightarrow>
               (case swap_index_entries t ixs old (hd news) rid sm of
                  Inl e \<Rightarrow> (Inl e, f1, c2, sm)
                | Inr sm1 \<Rightarrow> write_updates t ixs al rids (tl news) f1 c2 sm1)))"

text \<open>The constructor and \<open>Next()\<close>.\<close>

definition update_exec :: "(32 word \<Rightarrow> 32 word \<Rightarrow> 32 word) \<Rightarrow> (32 word \<Rightarrow> 32 word \<Rightarrow> 32 word) \<Rightarrow>
    sm_manager \<Rightarrow> string \<Rightarrow> SetClause list \<Rightarrow> Rid list \<Rightarrow> rm_context option \<Rightarrow>
    (exec_error + unit) \<times> sm_manager \<times> rm_context option" where
  "update_exec fadd fsub sm t scs rids ctx =
     (case get_table (db sm) t of
        Inl e \<Rightarrow> (Inl (ExecMetaError e), sm, ctx)
      | Inr tab \<Rightarrow>
          (case fhs sm t of
             None \<Rightarrow> (Inl (ExecMetaError (MetaOutOfRange t)), sm, ctx)
           | Some f \<Rightarrow>
               (case dml_table_lock (length rids) (fd f) ctx of
                  Inl e \<Rightarrow> (Inl e, sm, ctx)
                | Inr (c1, al) \<Rightarrow>
                    (case coerce_set_clauses tab scs of
                       Inl e \<Rightarrow> (Inl e, sm, c1)
                     | Inr scs1 \<Rightarrow>
                         (case post_images fadd fsub tab al f rids scs1 c1 of
                            (Inl e, c2) \<Rightarrow> (Inl e, sm, c2)
                          | (Inr (scs2, news), c2) \<Rightarrow>
                              (let ixs = conflict_indexes tab scs2
                               in case unique_precheck t ixs sm news [] of
                                    Inl e \<Rightarrow> (Inl e, sm, c2)
                                  | Inr _ \<Rightarrow>
                                      (case write_updates t ixs al rids news f c2 sm of
                                         (res, f', c3, sm') \<Rightarrow> (res, sm'\<lparr>fhs := (fhs sm')(t \<mapsto> f')\<rparr>, c3))))))))"

section \<open>Data for the witnesses\<close>

text \<open>Table \<open>u\<close> with one 4-byte \<open>int\<close> column \<open>a\<close> holding 1 and 2, under a unique
  index on \<open>a\<close> that holds both keys.\<close>

definition demo_ufile :: rm_file where
  "demo_ufile =
     \<lparr>record_size = 4, num_records_per_page = 2, num_pages = 2, fd = 9, file_name = ''u'',
      pages = [1 \<mapsto> \<lparr>num_records = 2, bitmap = [True, True], slots = [le_enc 4 1, le_enc 4 2]\<rparr>],
      free_pageno_set = []\<rparr>"

definition demo_usm :: sm_manager where
  "demo_usm =
     (let tab = \<lparr>tm_name = ''u'', tm_cols = demo_icols,
                 tm_indexes = [\<lparr>im_tab_name = ''u'', col_tot_len = 4, col_num = 1, im_cols = demo_icols\<rparr>],
                 cols_hash = [''a'' \<mapsto> 0]\<rparr>;
          d = \<lparr>db_name = ''d'', tabs = [''u'' \<mapsto> tab]\<rparr>
      in \<lparr>db = d, fhs = [''u'' \<mapsto> demo_ufile],
          ihs = [(''u'', [''a'']) \<mapsto> [le_enc 4 1 \<mapsto> Rid 1 0, le_enc 4 2 \<mapsto> Rid 1 1]], meta_file = d\<rparr>)"

text \<open>\<open>SET a = v\<close>.\<close>

definition demo_set_a :: "int \<Rightarrow> SetClause" where
  "demo_set_a v =
     \<lparr>set_lhs = \<lparr>tc_tab_name = ''u'', tc_col_name = ''a''\<rparr>,
      set_rhs = \<lparr>val_type = TYPE_INT, val_union = word_of_int v, str_val = [], datetime_val = [], raw = None\<rparr>,
      set_op = OP_ASSIGN\<rparr>"

text \<open>Table \<open>v\<close> with 4-byte \<open>int\<close> columns \<open>a\<close> and \<open>b\<close>, one row (1, 2), and a
  unique index on each column.\<close>

definition demo_vcols :: "ColMeta list" where
  "demo_vcols =
     [\<lparr>cm_tab_name = ''v'', cm_name = ''a'', cm_type = TYPE_INT, cm_len = 4, cm_offset = 0, cm_index = False\<rparr>,
      \<lparr>cm_tab_name = ''v'', cm_name = ''b'', cm_type = TYPE_INT, cm_len = 4, cm_offset = 4, cm_index = False\<rparr>]"

definition demo_vsm :: sm_manager where
  "demo_vsm =
     (let tab = \<lparr>tm_name = ''v'', tm_cols = demo_vcols,
                 tm_indexes = [\<lparr>im_tab_name = ''v'', col_tot_len = 4, col_num = 1, im_cols = [demo_vcols ! 0]\<rparr>,
                               \<lparr>im_tab_name = ''v'', col_tot_len = 4, col_num = 1, im_cols = [demo_vcols ! 1]\<rparr>],
                 cols_hash = [''a'' \<mapsto> 0, ''b'' \<mapsto> 1]\<rparr>;
          d = \<lparr>db_name = ''d'', tabs = [''v'' \<mapsto> tab]\<rparr>;
          f = \<lparr>record_size = 8, num_records_per_page = 2, num_pages = 2, fd = 10, file_name = ''v'',
               pages = [1 \<mapsto> \<lparr>num_records = 1, bitmap = [True, False], slots = [le_enc 4 1 @ le_enc 4 2, replicate 8 0]\<rparr>],
               free_pageno_set = [1]\<rparr>
      in \<lparr>db = d, fhs = [''v'' \<mapsto> f],
          ihs = [(''v'', [''a'']) \<mapsto> [le_enc 4 1 \<mapsto> Rid 1 0], (''v'', [''b'']) \<mapsto> [le_enc 4 2 \<mapsto> Rid 1 0]],
          meta_file = d\<rparr>)"

definition demo_set :: "string \<Rightarrow> int \<Rightarrow> SetClause" where
  "demo_set col v =
     \<lparr>set_lhs = \<lparr>tc_tab_name = ''v'', tc_col_name = col\<rparr>,
      set_rhs = \<lparr>val_type = TYPE_INT, val_union = word_of_int v, str_val = [], datetime_val = [], raw = None\<rparr>,
      set_op = OP_ASSIGN\<rparr>"

section \<open>Delete and update lemmas\<close>

lemma get_record_lock_abs:
  "get_record_lock rid al ctx f = (Inr r, c1) \<Longrightarrow> heap_abs f rid \<noteq> None \<Longrightarrow> heap_abs f rid = Some r"
  by (auto simp: get_record_lock_def heap_abs_def fetch_page_handle_def split: if_splits option.splits sum.splits)

lemma delete_from_indexes_effect:
  "delete_from_indexes t ixs r sm = Inr sm1 \<Longrightarrow>
   fhs sm1 = fhs sm \<and> db sm1 = db sm \<and>
   (\<forall>ix\<in>set ixs. \<exists>ih. ihs sm1 (index_name t (im_cols ix)) = Some ih \<and> ih (ix_key ix r) = None) \<and>
   (\<forall>n k. (\<exists>ih. ihs sm n = Some ih \<and> ih k = None) \<longrightarrow> (\<exists>ih. ihs sm1 n = Some ih \<and> ih k = None))"
proof (induction ixs arbitrary: sm)
  case (Cons ix ixs)
  obtain ih where ih: "ihs sm (index_name t (im_cols ix)) = Some ih"
    and rest: "delete_from_indexes t ixs r (sm\<lparr>ihs := (ihs sm)(index_name t (im_cols ix) \<mapsto> ix_delete_entry (ix_key ix r) ih)\<rparr>) = Inr sm1"
    using Cons.prems by (cases "ihs sm (index_name t (im_cols ix))") simp_all
  let ?sm = "sm\<lparr>ihs := (ihs sm)(index_name t (im_cols ix) \<mapsto> ix_delete_entry (ix_key ix r) ih)\<rparr>"
  note IH = Cons.IH[OF rest]
  have P4: "\<And>n k. (\<exists>ih. ihs ?sm n = Some ih \<and> ih k = None) \<Longrightarrow> (\<exists>ih. ihs sm1 n = Some ih \<and> ih k = None)"
    using IH by blast
  have keep: "\<exists>ih'. ihs sm1 n = Some ih' \<and> ih' k = None" if "ihs sm n = Some ih0" "ih0 k = None" for n k ih0
  proof (rule P4)
    show "\<exists>ih. ihs ?sm n = Some ih \<and> ih k = None"
      using that ih by (cases "n = index_name t (im_cols ix)") (simp_all add: ix_delete_entry_def)
  qed
  have here: "\<exists>ih'. ihs sm1 (index_name t (im_cols ix)) = Some ih' \<and> ih' (ix_key ix r) = None"
    by (rule P4) (simp add: ix_delete_entry_def)
  have all: "\<forall>ix'\<in>set (ix # ixs). \<exists>ih. ihs sm1 (index_name t (im_cols ix')) = Some ih \<and> ih (ix_key ix' r) = None"
  proof
    fix ix' assume "ix' \<in> set (ix # ixs)"
    then consider "ix' = ix" | "ix' \<in> set ixs" by auto
    then show "\<exists>ih. ihs sm1 (index_name t (im_cols ix')) = Some ih \<and> ih (ix_key ix' r) = None"
    proof cases
      case 1 then show ?thesis using here by simp
    next
      case 2 then show ?thesis using IH by blast
    qed
  qed
  have "fhs sm1 = fhs sm" "db sm1 = db sm" using IH by simp_all
  then show ?case using all keep by blast
qed simp

lemma delete_rids_effect:
  "delete_rids t tab al rids f ctx sm = (Inr (), f', c', sm') \<Longrightarrow> heap_inv f \<Longrightarrow> list_all (slot_in_range f) rids \<Longrightarrow>
   heap_inv f' \<and> same_hdr f' f \<and> fhs sm' = fhs sm \<and> db sm' = db sm \<and>
   (\<forall>n k. (\<exists>ih. ihs sm n = Some ih \<and> ih k = None) \<longrightarrow> (\<exists>ih. ihs sm' n = Some ih \<and> ih k = None)) \<and>
   heap_abs f' = (\<lambda>rid. if rid \<in> set rids then None else heap_abs f rid) \<and>
   (\<forall>rid\<in>set rids. heap_abs f rid \<noteq> None \<and>
      (\<forall>ix\<in>set (tm_indexes tab). \<exists>ih. ihs sm' (index_name t (im_cols ix)) = Some ih \<and> ih (ix_key ix (the (heap_abs f rid))) = None))"
proof (induction rids arbitrary: f ctx sm)
  case Nil
  then show ?case by (auto simp: same_hdr_def)
next
  case (Cons rid rids)
  obtain r c1 where g: "get_record_lock rid al ctx f = (Inr r, c1)"
    using Cons.prems(1) by (auto split: prod.splits sum.splits)
  obtain f1 c2 where d: "delete_record_lock rid al c1 f = (Inr (), f1, c2)"
    using Cons.prems(1) g by (auto split: prod.splits sum.splits)
  obtain sm1 where x: "delete_from_indexes t (tm_indexes tab) r sm = Inr sm1"
    and rest: "delete_rids t tab al rids f1 c2 sm1 = (Inr (), f', c', sm')"
    using Cons.prems(1) g d by (auto split: sum.splits)
  have e: "heap_inv f1 \<and> same_hdr f1 f \<and> heap_abs f rid \<noteq> None \<and> heap_abs f1 = (heap_abs f)(rid := None)"
    using delete_record_lock_effect[OF Cons.prems(2) _ d] Cons.prems(3) by simp
  have rr: "heap_abs f rid = Some r" using get_record_lock_abs[OF g] e by simp
  have "slot_in_range f1 = slot_in_range f" using e by (intro ext) (simp add: slot_in_range_def same_hdr_def)
  then have sr: "list_all (slot_in_range f1) rids" using Cons.prems(3) by simp
  note IH = Cons.IH[OF rest conjunct1[OF e] sr]
  note X = delete_from_indexes_effect[OF x]
  show ?case
  proof (intro conjI)
    show "heap_inv f'" using IH by simp
    show "same_hdr f' f" using IH e by (simp add: same_hdr_def)
    show "fhs sm' = fhs sm" using IH X by simp
    show "db sm' = db sm" using IH X by simp
    show "\<forall>n k. (\<exists>ih. ihs sm n = Some ih \<and> ih k = None) \<longrightarrow> (\<exists>ih. ihs sm' n = Some ih \<and> ih k = None)"
    proof (intro allI impI)
      fix n k assume "\<exists>ih. ihs sm n = Some ih \<and> ih k = None"
      then have "\<exists>ih. ihs sm1 n = Some ih \<and> ih k = None" using X by blast
      then show "\<exists>ih. ihs sm' n = Some ih \<and> ih k = None" using IH by blast
    qed
    show "heap_abs f' = (\<lambda>rid'. if rid' \<in> set (rid # rids) then None else heap_abs f rid')"
      using IH e by auto
    show "\<forall>rid'\<in>set (rid # rids). heap_abs f rid' \<noteq> None \<and>
      (\<forall>ix\<in>set (tm_indexes tab). \<exists>ih. ihs sm' (index_name t (im_cols ix)) = Some ih \<and> ih (ix_key ix (the (heap_abs f rid'))) = None)"
    proof
      fix rid' assume "rid' \<in> set (rid # rids)"
      then consider "rid' = rid" | "rid' \<in> set rids" "rid' \<noteq> rid" by auto
      then show "heap_abs f rid' \<noteq> None \<and>
        (\<forall>ix\<in>set (tm_indexes tab). \<exists>ih. ihs sm' (index_name t (im_cols ix)) = Some ih \<and> ih (ix_key ix (the (heap_abs f rid'))) = None)"
      proof cases
        case 1
        have P4: "\<And>n k. (\<exists>ih. ihs sm1 n = Some ih \<and> ih k = None) \<Longrightarrow> (\<exists>ih. ihs sm' n = Some ih \<and> ih k = None)"
          using IH by blast
        show ?thesis using 1 e rr X P4 by simp
      next
        case 2
        then show ?thesis using IH e by auto
      qed
    qed
  qed
qed

text \<open>C38. A successful delete of rids of a well-formed table file removes exactly those
  records from the file, keeps it well formed, and leaves in every index of the table no
  entry for the key of any deleted record.\<close>

theorem delete_removes_records_and_keys:
  assumes del: "delete_exec sm t rids ctx = (Inr (), sm', c')"
    and tab: "get_table (db sm) t = Inr tab" and f: "fhs sm t = Some f"
    and inv: "heap_inv f" and rng: "list_all (slot_in_range f) rids"
  shows "\<exists>f'. fhs sm' t = Some f' \<and> heap_inv f' \<and>
           heap_abs f' = (\<lambda>rid. if rid \<in> set rids then None else heap_abs f rid) \<and>
           list_all (\<lambda>rid. heap_abs f rid \<noteq> None \<and>
              list_all (\<lambda>ix. \<exists>ih. ihs sm' (index_name t (im_cols ix)) = Some ih \<and> ih (ix_key ix (the (heap_abs f rid))) = None)
                (tm_indexes tab)) rids"
proof -
  obtain c1 al where lk: "dml_table_lock (length rids) (fd f) ctx = Inr (c1, al)"
    using del tab f by (cases "dml_table_lock (length rids) (fd f) ctx") (auto simp: delete_exec_def)
  obtain f' c2 sm1 where dr: "delete_rids t tab al rids f c1 sm = (Inr (), f', c2, sm1)"
      and sm': "sm' = sm1\<lparr>fhs := (fhs sm1)(t \<mapsto> f')\<rparr>"
    using del tab f lk by (cases "delete_rids t tab al rids f c1 sm") (auto simp: delete_exec_def)
  have E: "heap_inv f'" "heap_abs f' = (\<lambda>rid. if rid \<in> set rids then None else heap_abs f rid)"
    "\<forall>rid\<in>set rids. heap_abs f rid \<noteq> None \<and>
      (\<forall>ix\<in>set (tm_indexes tab). \<exists>ih. ihs sm1 (index_name t (im_cols ix)) = Some ih \<and> ih (ix_key ix (the (heap_abs f rid))) = None)"
    using delete_rids_effect[OF dr inv rng] by simp_all
  show ?thesis using E sm' by (intro exI[of _ f']) (simp add: list_all_iff)
qed

lemma demo_delete_runs: "fst (delete_exec demo_sm ''t'' [Rid 1 0] (Some demo_ctx)) = Inr ()"
  by (simp add: delete_exec_def get_table_def demo_sm_def Let_def dml_table_lock_def ctx_lock_def
      lock_IX_on_table_def lock_on_def demo_ctx_def demo_txn_def get_record_lock_def delete_record_lock_def
      heap_eval demo_file_def ix_delete_entry_def lock_shared_on_record_def ctx_tid_def append_lock_set_def
      lock_exclusive_on_record_def mode_join_def index_name_def demo_defs_def)

theorem delete_removes_records_and_keys_witness:
  "\<exists>sm' c' f'. delete_exec demo_sm ''t'' [Rid 1 0] (Some demo_ctx) = (Inr (), sm', c') \<and>
     fhs sm' ''t'' = Some f' \<and> heap_abs f' (Rid 1 0) = None \<and> heap_abs f' (Rid 1 1) = Some [2, 2]"
proof -
  obtain sm' c' where del: "delete_exec demo_sm ''t'' [Rid 1 0] (Some demo_ctx) = (Inr (), sm', c')"
    using demo_delete_runs by (cases "delete_exec demo_sm ''t'' [Rid 1 0] (Some demo_ctx)") auto
  have tab: "get_table (db demo_sm) ''t'' = Inr (the (tabs (db demo_sm) ''t''))"
    by (simp add: get_table_def demo_sm_def Let_def)
  have f: "fhs demo_sm ''t'' = Some demo_file" by (simp add: demo_sm_def Let_def)
  have rng: "list_all (slot_in_range demo_file) [Rid 1 0]" by (simp add: slot_in_range_def demo_file_def)
  have ab: "heap_abs demo_file (Rid 1 1) = Some [2, 2]" by code_simp
  obtain f' where f': "fhs sm' ''t'' = Some f'"
      and abs: "heap_abs f' = (\<lambda>rid. if rid \<in> set [Rid 1 0] then None else heap_abs demo_file rid)"
    using delete_removes_records_and_keys[OF del tab f demo_file_inv rng] by blast
  have "heap_abs f' (Rid 1 0) = None" using abs by simp
  moreover have "heap_abs f' (Rid 1 1) = Some [2, 2]" using abs ab by simp
  ultimately show ?thesis using del f' by blast
qed

text \<open>The unique-index check of an update does not exclude the rows being updated: setting
  an indexed column of a row to the value it already has fails.\<close>

theorem update_to_own_key_rejected:
  "fst (update_exec fadd fsub demo_usm ''u'' [demo_set_a 1] [Rid 1 0] (Some demo_ctx)) =
     Inl (ExecInternalError ''Error: update duplicated indexes.'')"
  by code_simp

text \<open>A fresh key passes the same check.\<close>

lemma update_fresh_key_passes_precheck:
  "unique_precheck ''u'' (tm_indexes (the (tabs (db demo_usm) ''u''))) demo_usm [le_enc 4 3] [] = Inr ()"
  by code_simp

text \<open>The keys already seen in the unique-index check are one map for all indexes: a
  row whose new keys in two different indexes have the same bytes fails, although no index
  would hold a duplicate.\<close>

theorem update_equal_keys_across_indexes_rejected:
  "fst (update_exec fadd fsub demo_vsm ''v'' [demo_set ''a'' 5, demo_set ''b'' 5] [Rid 1 0] (Some demo_ctx)) =
     Inl (ExecInternalError ''Error: update duplicated indexes.'')"
  by code_simp

text \<open>Distinct keys in the two indexes pass the check.\<close>

lemma update_distinct_keys_pass_precheck:
  "unique_precheck ''v'' (tm_indexes (the (tabs (db demo_vsm) ''v''))) demo_vsm [le_enc 4 5 @ le_enc 4 6] [] = Inr ()"
  by code_simp

end
