(* ===== verification/Spec2Isabelle.thy ===== *)
theory Spec2Isabelle
  imports Buffer_Pool_WAL Lock_Manager BTree_Node Recovery Exec_DML
begin

text \<open>
  Verification development for RMDB, the relational engine of the CSCC 2023 database
  competition (sources under \<open>src/src\<close>).

  \<^bold>\<open>Parts of the program and their theories.\<close>
  \<^item> \<open>Prelude\<close>: the identifiers of \<open>defs.h\<close> (\<open>PageId\<close>, \<open>Rid\<close>, the invalid
    page number and LSN), page bytes as \<open>8 word\<close> lists, and list lemmas the
    components share.
  \<^item> \<open>LRU_Replacer\<close>: \<open>replacer/lru_replacer.cpp\<close>. The record \<open>lru_replacer\<close> is
    the list \<open>LRUlist_\<close> and the key set of \<open>LRUhash_\<close>; \<open>victim\<close>, \<open>pin\<close> and \<open>unpin\<close>
    are the three methods. The lemmas show the invariant (the list is distinct and
    agrees with the hash) is preserved and that the list refines a FIFO queue of
    evictable frames (\<open>lru_abs\<close>).
  \<^item> \<open>Log_Manager\<close>: \<open>recovery/log_manager.cpp\<close> and the record layout of
    \<open>recovery/log_manager.h\<close>. The log manager's state is a record of the global
    and persisted LSN, the buffered records and the records already on disk; the
    lemmas show the LSNs are consecutive and, over any run of appends and
    flushes (\<open>log_run\<close>), that the log holds exactly the appended records, that those
    below \<open>persist_lsn_\<close> are on disk and that a flush puts all of them on disk.
  \<^item> \<open>Buffer_Pool\<close>: \<open>storage/buffer_pool_manager.cpp\<close>, one definition per method,
    with the disk manager (not among the sources) modelled from the specification as
    a page store and a page counter per file. The invariant \<open>bp_inv\<close> (page table,
    free list, replacer and frames agree) is preserved by every method.
  \<^item> \<open>Buffer_Pool_WAL\<close>: the write-ahead rule of the pool, the step relation
    \<open>bp_step\<close> over the pool's operations and its reachable states \<open>bp_reach\<close>.

  \<^item> \<open>Lock_Manager\<close>: \<open>transaction/concurrency/lock_manager.cpp\<close>. The lock table
    maps a table or record to its request queue; \<open>lock_on\<close> is the no-wait body the
    six request functions share, \<open>unlock\<close> the release. The lemmas show every
    reachable table respects the IS/IX/S/SIX/X compatibility matrix, that a request
    aborts exactly on an incompatible holder, and that a re-request upgrades to the
    join of the two modes.
  \<^item> \<open>BTree_Node\<close>: one node of \<open>index/ix_index_handle.cpp\<close> (\<open>IxNodeHandle\<close>):
    binary searches, lookup, insert, remove, \<open>insert_pairs\<close> and \<open>split\<close>, with the
    lemmas that the searches equal linear scans and that split and insert keep nodes
    well formed.
  \<^item> \<open>Record_Heap\<close>: \<open>record/rm_file_handle.cpp\<close> and \<open>record/rm_scan.cpp\<close>; every
    method, with its locks and log records, refines the abstract map from rid to
    record bytes (\<open>heap_abs\<close>) and keeps \<open>heap_inv\<close>; an insert without a context
    always returns the first free slot of the first hinted (or a new) page; the scan
    lists the stored rids in order.
  \<^item> \<open>Transaction_Manager\<close>: \<open>begin\<close>, \<open>commit\<close>, \<open>abort\<close> and
    \<open>rollback_writeRecord\<close>; abort restores the tables, commit releases the locks and
    makes the log durable.
  \<^item> \<open>Log_Serial\<close> and \<open>Recovery\<close>: the byte image of the log and its parser
    (round trip), and the redo and undo passes of \<open>recovery/log_recovery.cpp\<close>.
  \<^item> \<open>Values\<close>, \<open>Catalog\<close>, \<open>System_Manager\<close>: typed values and \<open>ix_compare\<close>, the
    catalog of \<open>system/sm_meta.h\<close>, and the DDL and row-insert paths of
    \<open>system/sm_manager.cpp\<close>, an index being the map from key bytes to rids it stores.
  \<^item> \<open>Executors\<close>: the executors of \<open>execution/\<close> as records of their virtual methods
    (\<open>executor\<close>): sequential scan, projection, sort and aggregation. The scan returns
    the filter of the file's records (C13), the sort the stable sort by its columns,
    limited by \<open>limit_cnt\<close> read as \<open>size_t\<close> (C17, C18), the aggregation one row of
    the wrapped 32-bit result (C33).
  \<^item> \<open>Exec_DML\<close>: \<open>InsertExecutor\<close>, \<open>DeleteExecutor\<close> and \<open>UpdateExecutor\<close>; a delete
    removes exactly its records and their index keys (C38). Two evaluations show that
    the unique-index pre-check of an update counts a row's own old key and shares its
    set of seen keys across indexes.

  \<^bold>\<open>Fuel.\<close> The loop \<open>for (beginTuple(); !is_end(); nextTuple())\<close> is \<open>drain_loop\<close>
  with fuel, since an arbitrary child need not end; the theorems give the fuel that
  suffices and prove the loop returns with it: one step per rid of the file for the
  scan (each step of \<open>RmScan::next\<close> moves strictly forward, C32), one step per
  record of the child for sort, two for aggregation (one output row).

  \<^bold>\<open>Not modelled.\<close> The SQL parser and the analyzer and planner (generated or
  string-processing code whose output is the executors' input), the join and index
  scan executors, the page-level layout of the B+ tree above one node (an index is
  the map it stores), the latches (every modelled method runs under its mutex, so a
  sequential model is what they guarantee), and the file I/O of the disk manager
  beyond a page store.

  \<^bold>\<open>Choices.\<close> Two builds of the code meet in this development. The buffer-pool
  theories (\<open>Buffer_Pool\<close>, \<open>Buffer_Pool_WAL\<close>) model the \<open>ENABLE_LSN\<close> build, the one
  the log-flush branch before a page write is written for: its stamp of a page's LSN
  (\<open>log_and_stamp\<close>) uses a \<open>new_lsn\<close> the code never declares, read here as the LSN
  of the update record just appended, so C2 states the WAL rule of the design that
  build intends. \<open>Record_Heap\<close>, \<open>Transaction_Manager\<close> and \<open>Recovery\<close> model the build
  that compiles (no \<open>ENABLE_LSN\<close>): no page is stamped, and recovery takes the page LSN
  as an input that is \<open>INVALID_LSN\<close> in that build. The two halves share only the log
  manager, which is the same in both builds. LSNs are unbounded integers: \<open>lsn_t\<close> is
  a 32-bit \<open>int\<close> that would wrap after \<open>2^31\<close> records, a length no theorem here
  reaches by construction but none excludes either; the wrap-around is not modelled.
  Concurrency (the latches) is not modelled: every method runs under its mutex, so a
  sequential model of the methods is the behaviour the latch guarantees.
\<close>

end
